theory Spec2Isabelle
  imports Main "HOL-Library.Word" "HOL-Library.Sublist"
begin

section \<open>The review queue of the Slack handler\<close>

text \<open>
  A shallow embedding of \<^verbatim>\<open>slack_handler.go\<close>: the \<^verbatim>\<open>Queue\<close> and
  \<^verbatim>\<open>SlackHandler\<close> structs, the command handlers of the queue, and the functions of
  Go's standard library that they call. A handler mutates the \<^verbatim>\<open>SlackHandler\<close>
  behind its receiver, takes and releases the mutex \<^verbatim>\<open>sh.mu\<close> and posts messages:
  the model passes the handler state explicitly and returns, next to the new state, the
  list of these effects in the order in which the handler performs them. One handler runs
  from its first statement to its return; interleavings of several handlers are not
  modelled.
\<close>

subsection \<open>Functions of Go's standard library\<close>

text \<open>
  Go's \<^verbatim>\<open>int\<close> on a 64-bit platform: \<^verbatim>\<open>++\<close> wraps around, comparison and
  \<^verbatim>\<open>%d\<close> read the value as two's complement (\<open>sint\<close>).
\<close>

type_synonym go_int = "64 word"

text \<open>
  A Go string is a sequence of bytes, here a \<open>string\<close>. \<^verbatim>\<open>strings.Fields\<close> splits
  it around each maximal run of white space, as \<^verbatim>\<open>unicode.IsSpace\<close> defines it, and
  returns the non-empty pieces. The white-space code points are the six ASCII ones and
  U+0085, U+00A0, U+1680, U+2000 to U+200A, U+2028, U+2029, U+202F, U+205F and U+3000; the
  function below recognises their UTF-8 encodings at the head of a string and gives the
  number of bytes of the encoding (0 when the string does not start with white space).
  The first byte of each encoding is never a continuation byte, so that Go's decoder,
  which consumes one byte at an invalid sequence, always starts a code point there.
\<close>

definition asciiSpace :: "char \<Rightarrow> bool" where
  "asciiSpace c \<longleftrightarrow>
     c = CHR 0x09 \<or> c = CHR 0x0A \<or> c = CHR 0x0B \<or> c = CHR 0x0C \<or> c = CHR 0x0D \<or> c = CHR 0x20"

fun spaceWidth :: "string \<Rightarrow> nat" where
  "spaceWidth [] = 0"
| "spaceWidth [c] = (if asciiSpace c then 1 else 0)"
| "spaceWidth [c, d] =
     (if asciiSpace c then 1
      else if c = CHR 0xC2 \<and> (d = CHR 0x85 \<or> d = CHR 0xA0) then 2 else 0)"
| "spaceWidth (c # d # e # _) =
     (if asciiSpace c then 1
      else if c = CHR 0xC2 \<and> (d = CHR 0x85 \<or> d = CHR 0xA0) then 2
      else if c = CHR 0xE1 \<and> d = CHR 0x9A \<and> e = CHR 0x80 then 3
      else if c = CHR 0xE2 \<and> d = CHR 0x80 \<and>
              ((128::nat) \<le> of_char e \<and> (of_char e :: nat) \<le> 138
               \<or> e = CHR 0xA8 \<or> e = CHR 0xA9 \<or> e = CHR 0xAF) then 3
      else if c = CHR 0xE2 \<and> d = CHR 0x81 \<and> e = CHR 0x9F then 3
      else if c = CHR 0xE3 \<and> d = CHR 0x80 \<and> e = CHR 0x80 then 3
      else 0)"

text \<open>
  The scan of \<^verbatim>\<open>strings.Fields\<close>: \<open>k\<close> counts the bytes of the current white-space
  code point that are still to be skipped, \<open>cur\<close> is the field read so far.
\<close>

fun fieldsFrom :: "nat \<Rightarrow> string \<Rightarrow> string \<Rightarrow> string list" where
  "fieldsFrom k cur [] = (if cur = [] then [] else [cur])"
| "fieldsFrom (Suc k) cur (c # cs) = fieldsFrom k cur cs"
| "fieldsFrom 0 cur (c # cs) =
     (if 0 < spaceWidth (c # cs)
      then (if cur = [] then [] else [cur]) @ fieldsFrom (spaceWidth (c # cs) - 1) [] cs
      else fieldsFrom 0 (cur @ [c]) cs)"

definition Fields :: "string \<Rightarrow> string list" where
  "Fields s = fieldsFrom 0 [] s"

text \<open>\<^verbatim>\<open>strings.Join\<close>.\<close>

fun Join :: "string list \<Rightarrow> string \<Rightarrow> string" where
  "Join [] sep = []"
| "Join [x] sep = x"
| "Join (x # y # ys) sep = x @ sep @ Join (y # ys) sep"

text \<open>The verb \<^verbatim>\<open>%d\<close> of \<^verbatim>\<open>fmt.Sprintf\<close>: the decimal digits, after a minus sign
  for a negative number.\<close>

definition digitChar :: "nat \<Rightarrow> char" where
  "digitChar d = ''0123456789'' ! d"

function natDigits :: "nat \<Rightarrow> string" where
  "natDigits n = (if n < 10 then [digitChar n] else natDigits (n div 10) @ [digitChar (n mod 10)])"
  by pat_completeness auto
termination
  by (relation "measure (\<lambda>n. n)") auto

declare natDigits.simps [simp del]

definition formatInt :: "go_int \<Rightarrow> string" where
  "formatInt i = (if sint i < 0 then CHR ''-'' # natDigits (nat (- sint i)) else natDigits (nat (sint i)))"

text \<open>
  \<^verbatim>\<open>strconv.Atoi\<close>: an optional sign and at least one decimal digit, nothing else;
  it fails on any other string and on a value outside the range of \<^verbatim>\<open>int\<close>. The
  handlers only test whether the error is \<^verbatim>\<open>nil\<close>, so the error is \<open>None\<close>.
\<close>

definition isDigit :: "char \<Rightarrow> bool" where
  "isDigit c \<longleftrightarrow> (48::nat) \<le> of_char c \<and> (of_char c :: nat) \<le> 57"

fun parseDigits :: "string \<Rightarrow> nat \<Rightarrow> nat option" where
  "parseDigits [] n = Some n"
| "parseDigits (c # cs) n =
     (if isDigit c then parseDigits cs (n * 10 + (of_char c - 48)) else None)"

definition Atoi :: "string \<Rightarrow> go_int option" where
  "Atoi s =
     (let neg = (s \<noteq> [] \<and> hd s = CHR ''-'');
          ds = (if s \<noteq> [] \<and> (hd s = CHR ''-'' \<or> hd s = CHR ''+'') then tl s else s)
      in if ds = [] then None
         else case parseDigits ds 0 of
                None \<Rightarrow> None
              | Some n \<Rightarrow>
                  (let v = (if neg then - int n else int n)
                   in if - (2 ^ 63) \<le> v \<and> v < 2 ^ 63 then Some (word_of_int v) else None))"

subsection \<open>The data\<close>

record Queue =
  ID :: go_int
  Title :: string
  MRLink :: string
  Tags :: "string list"
  Owner :: string
  InReviewState :: bool

text \<open>
  \<^verbatim>\<open>Queues\<close> is a \<^verbatim>\<open>map[int]*Queue\<close>. Each entry is allocated by
  \<^verbatim>\<open>handleQueueAdd\<close> and reachable only through its key, so that a write through
  the pointer is an update of the map at that key. The mutex \<^verbatim>\<open>mu\<close> is followed
  through the effects below; the Slack client and the signing secret play no part in
  the handlers of the queue.
\<close>

record SlackHandler =
  Queues :: "go_int \<rightharpoonup> Queue"
  NextID :: go_int
  BotUserID :: string

text \<open>The fields of \<^verbatim>\<open>slackevents.MessageEvent\<close> that the handlers read.\<close>

record MessageEvent =
  Text :: string
  User :: string
  Channel :: string

text \<open>What a handler does besides changing the state: \<^verbatim>\<open>sh.mu.Lock()\<close>,
  \<^verbatim>\<open>sh.mu.Unlock()\<close> and \<^verbatim>\<open>sh.API.PostMessage(channel, text)\<close>.\<close>

datatype effect = MuLock | MuUnlock | PostMessage string string

definition NewSlackHandler :: "string \<Rightarrow> SlackHandler" where
  "NewSlackHandler botUserID = \<lparr>Queues = Map.empty, NextID = 1, BotUserID = botUserID\<rparr>"

subsection \<open>The handlers\<close>

definition parseQueueID :: "string \<Rightarrow> string + go_int" where
  "parseQueueID command =
     (let parts = Fields command
      in if length parts < 3 then Inl ''Usage: <command> <id>''
         else case Atoi (parts ! 2) of
                None \<Rightarrow> Inl ''Invalid queue ID.''
              | Some qid \<Rightarrow> Inr qid)"

definition handleQueueAdd :: "SlackHandler \<Rightarrow> MessageEvent \<Rightarrow> SlackHandler \<times> effect list" where
  "handleQueueAdd sh ev =
     (let parts = Fields (Text ev)
      in if length parts < 4
         then (sh, [PostMessage (Channel ev) ''Usage: queue add <title> <MR link> @tag @tag''])
         else
           (let queue = \<lparr>ID = NextID sh, Title = parts ! 2, MRLink = parts ! 3,
                         Tags = drop 4 parts, Owner = User ev, InReviewState = False\<rparr>;
                sh' = sh\<lparr>Queues := (Queues sh)(NextID sh \<mapsto> queue), NextID := NextID sh + 1\<rparr>;
                msg = ''Queue added: *'' @ Title queue @ ''*\<newline>MR Link: '' @ MRLink queue
                      @ ''\<newline>Tags: '' @ Join (Tags queue) '', ''
            in (sh', [MuLock, PostMessage (Channel ev) msg, MuUnlock])))"

text \<open>
  The body of the loop of \<^verbatim>\<open>handleQueueList\<close>: the line written for one entry.
\<close>

definition queueLine :: "Queue \<Rightarrow> string" where
  "queueLine queue =
     (let mention = (if InReviewState queue then ''Owner: <@'' @ Owner queue @ ''>''
                     else ''Tags: '' @ Join (Tags queue) '', '')
      in ''ID: '' @ formatInt (ID queue) @ '' | Title: '' @ Title queue @ '' | MR: ''
         @ MRLink queue @ '' | '' @ mention @ ''\<newline>'')"

text \<open>
  Go visits the entries of a map in an order that the runtime chooses anew for each
  \<^verbatim>\<open>range\<close>. The order is the argument \<open>ks\<close>: the keys of \<^verbatim>\<open>sh.Queues\<close>, each
  once, as the loop meets them. The unlock is deferred, hence the last effect.
\<close>

definition handleQueueList :: "SlackHandler \<Rightarrow> go_int list \<Rightarrow> MessageEvent \<Rightarrow> effect list" where
  "handleQueueList sh ks ev =
     (if dom (Queues sh) = {}
      then [MuLock, PostMessage (Channel ev) ''No queues available.'', MuUnlock]
      else [MuLock,
            PostMessage (Channel ev) (concat (map queueLine (List.map_filter (Queues sh) ks))),
            MuUnlock])"

definition handleQueueRemove :: "SlackHandler \<Rightarrow> MessageEvent \<Rightarrow> SlackHandler \<times> effect list" where
  "handleQueueRemove sh ev =
     (case parseQueueID (Text ev) of
        Inl err \<Rightarrow> (sh, [PostMessage (Channel ev) err])
      | Inr qid \<Rightarrow>
          (case Queues sh qid of
             None \<Rightarrow> (sh, [MuLock, PostMessage (Channel ev) ''Queue not found.'', MuUnlock])
           | Some _ \<Rightarrow>
               (sh\<lparr>Queues := (Queues sh)(qid := None)\<rparr>,
                [MuLock, PostMessage (Channel ev) ''Queue removed.'', MuUnlock])))"

text \<open>The search loop of \<^verbatim>\<open>handleQueueApprove\<close>: the index of the first tag equal
  to \<open>approvedTag\<close>, counted from \<open>i\<close>, or \<open>-1\<close>.\<close>

fun findTag :: "string list \<Rightarrow> string \<Rightarrow> int \<Rightarrow> int" where
  "findTag [] approvedTag i = - 1"
| "findTag (tag # tags) approvedTag i =
     (if tag = approvedTag then i else findTag tags approvedTag (i + 1))"

definition handleQueueApprove ::
  "SlackHandler \<Rightarrow> go_int list \<Rightarrow> MessageEvent \<Rightarrow> SlackHandler \<times> effect list" where
  "handleQueueApprove sh ks ev =
     (let parts = Fields (Text ev)
      in if length parts < 3
         then (sh, [PostMessage (Channel ev) ''Usage: queue approve <id>''])
         else case Atoi (parts ! 2) of
           None \<Rightarrow> (sh, [PostMessage (Channel ev) ''Invalid queue ID.''])
         | Some qid \<Rightarrow>
            (case Queues sh qid of
               None \<Rightarrow> (sh, [MuLock, MuUnlock, PostMessage (Channel ev) ''Queue not found.''])
             | Some queue \<Rightarrow>
                 if 0 < length (Tags queue)
                 then
                   (let approvedTag = ''<@'' @ User ev @ ''>'';
                        tagIndex = findTag (Tags queue) approvedTag 0
                    in if tagIndex \<noteq> - 1
                       then
                         (let sh' = sh\<lparr>Queues := (Queues sh)(qid \<mapsto>
                                       queue\<lparr>Tags := take (nat tagIndex) (Tags queue)
                                                       @ drop (nat (tagIndex + 1)) (Tags queue)\<rparr>)\<rparr>
                          in (sh', [MuLock, MuUnlock,
                                    PostMessage (Channel ev) ''Queue approved and tag removed.'']
                                   @ handleQueueList sh' ks ev))
                       else (sh, [MuLock, MuUnlock,
                                  PostMessage (Channel ev) ''Your tag was not found in the queue.'']))
                 else (sh, [MuLock, MuUnlock,
                            PostMessage (Channel ev) ''Queue completed; no tags left.'']
                           @ handleQueueList sh ks ev)))"

definition handleQueueReview ::
  "SlackHandler \<Rightarrow> go_int list \<Rightarrow> MessageEvent \<Rightarrow> SlackHandler \<times> effect list" where
  "handleQueueReview sh ks ev =
     (case parseQueueID (Text ev) of
        Inl err \<Rightarrow> (sh, [PostMessage (Channel ev) err])
      | Inr qid \<Rightarrow>
          (case Queues sh qid of
             None \<Rightarrow> (sh, [MuLock, MuUnlock, PostMessage (Channel ev) ''Queue not found.''])
           | Some queue \<Rightarrow>
               (let sh' = sh\<lparr>Queues := (Queues sh)(qid \<mapsto> queue\<lparr>InReviewState := True\<rparr>)\<rparr>;
                    msg = ''Queue '' @ formatInt (ID queue) @ '' is now in review.''
                in (sh', [MuLock, PostMessage (Channel ev) msg, MuUnlock]
                         @ handleQueueList sh' ks ev))))"

definition handleQueueUpdate ::
  "SlackHandler \<Rightarrow> go_int list \<Rightarrow> MessageEvent \<Rightarrow> SlackHandler \<times> effect list" where
  "handleQueueUpdate sh ks ev =
     (case parseQueueID (Text ev) of
        Inl err \<Rightarrow> (sh, [PostMessage (Channel ev) err])
      | Inr qid \<Rightarrow>
          (case Queues sh qid of
             None \<Rightarrow> (sh, [MuLock, MuUnlock, PostMessage (Channel ev) ''Queue not found.''])
           | Some queue \<Rightarrow>
               (let sh' = sh\<lparr>Queues := (Queues sh)(qid \<mapsto> queue\<lparr>InReviewState := False\<rparr>)\<rparr>;
                    msg = ''Queue '' @ formatInt (ID queue)
                          @ '' has been updated and is no longer in review.''
                in (sh', [MuLock, PostMessage (Channel ev) msg, MuUnlock]
                         @ handleQueueList sh' ks ev))))"

subsection \<open>Runs of several commands\<close>

text \<open>The states that a sequence of \<^verbatim>\<open>queue add\<close> messages goes through, the first
  state included.\<close>

fun addStates :: "SlackHandler \<Rightarrow> MessageEvent list \<Rightarrow> SlackHandler list" where
  "addStates sh [] = [sh]"
| "addStates sh (ev # evs) = sh # addStates (fst (handleQueueAdd sh ev)) evs"

text \<open>The state after a sequence of \<^verbatim>\<open>queue approve\<close> messages, each with the order
  in which its listing visits the map.\<close>

fun approveAll :: "SlackHandler \<Rightarrow> (go_int list \<times> MessageEvent) list \<Rightarrow> SlackHandler" where
  "approveAll sh [] = sh"
| "approveAll sh ((ks, ev) # rest) = approveAll (fst (handleQueueApprove sh ks ev)) rest"

text \<open>
  Any sequence of calls of the handlers: each command is one call, with the message it
  is given and, where the handler lists the queues, the order in which the listing visits
  the map. \<open>run sh cs\<close> is the handler state after the calls \<open>cs\<close>.
\<close>

datatype command =
    QueueAdd MessageEvent
  | QueueList "go_int list" MessageEvent
  | QueueRemove MessageEvent
  | QueueApprove "go_int list" MessageEvent
  | QueueReview "go_int list" MessageEvent
  | QueueUpdate "go_int list" MessageEvent

fun step :: "SlackHandler \<Rightarrow> command \<Rightarrow> SlackHandler" where
  "step sh (QueueAdd ev) = fst (handleQueueAdd sh ev)"
| "step sh (QueueList ks ev) = sh"
| "step sh (QueueRemove ev) = fst (handleQueueRemove sh ev)"
| "step sh (QueueApprove ks ev) = fst (handleQueueApprove sh ks ev)"
| "step sh (QueueReview ks ev) = fst (handleQueueReview sh ks ev)"
| "step sh (QueueUpdate ks ev) = fst (handleQueueUpdate sh ks ev)"

fun run :: "SlackHandler \<Rightarrow> command list \<Rightarrow> SlackHandler" where
  "run sh [] = sh"
| "run sh (c # cs) = run (step sh c) cs"

subsection \<open>The mutex along the effects of a handler\<close>

text \<open>
  \<open>postsHoldingLock held es\<close>: some message of \<open>es\<close> is posted while the mutex is held,
  where \<open>held\<close> tells whether it is held before \<open>es\<close>. \<open>muAfter held es\<close> is the state
  of the mutex after \<open>es\<close>, and \<open>None\<close> when \<open>es\<close> locks the mutex while it is held
  (\<^verbatim>\<open>sync.Mutex\<close> is not reentrant: the goroutine blocks for ever) or unlocks it while it
  is free (a fatal error of the Go runtime).
\<close>

fun postsHoldingLock :: "bool \<Rightarrow> effect list \<Rightarrow> bool" where
  "postsHoldingLock held [] = False"
| "postsHoldingLock held (MuLock # es) = postsHoldingLock True es"
| "postsHoldingLock held (MuUnlock # es) = postsHoldingLock False es"
| "postsHoldingLock held (PostMessage c m # es) = (held \<or> postsHoldingLock held es)"

fun muAfter :: "bool \<Rightarrow> effect list \<Rightarrow> bool option" where
  "muAfter held [] = Some held"
| "muAfter held (MuLock # es) = (if held then None else muAfter True es)"
| "muAfter held (MuUnlock # es) = (if held then muAfter False es else None)"
| "muAfter held (PostMessage c m # es) = muAfter held es"

text \<open>
  \<open>heldAtPosts held es\<close>: the messages that \<open>es\<close> posts, in their order, each with
  the state of the mutex at the moment it is posted.
\<close>

fun heldAtPosts :: "bool \<Rightarrow> effect list \<Rightarrow> (bool \<times> string) list" where
  "heldAtPosts held [] = []"
| "heldAtPosts held (MuLock # es) = heldAtPosts True es"
| "heldAtPosts held (MuUnlock # es) = heldAtPosts False es"
| "heldAtPosts held (PostMessage c m # es) = (held, m) # heldAtPosts held es"

subsection \<open>A small registry\<close>

text \<open>
  One entry with a repeated tag, as \<^verbatim>\<open>queue add Fix http://x <@U1> <@U2> <@U1>\<close> sent
  by \<^verbatim>\<open>U0\<close> leaves it in a fresh handler, and the message \<^verbatim>\<open>queue approve 1\<close>
  of a user.
\<close>

definition demoQueue :: Queue where
  "demoQueue = \<lparr>ID = 1, Title = ''Fix'', MRLink = ''http://x'',
                 Tags = [''<@U1>'', ''<@U2>'', ''<@U1>''], Owner = ''U0'', InReviewState = False\<rparr>"

definition demoHandler :: SlackHandler where
  "demoHandler = \<lparr>Queues = [1 \<mapsto> demoQueue], NextID = 2, BotUserID = ''B''\<rparr>"

definition approveBy :: "string \<Rightarrow> MessageEvent" where
  "approveBy u = \<lparr>Text = ''queue approve 1'', User = u, Channel = ''C''\<rparr>"

section \<open>Properties\<close>

subsection \<open>Auxiliary facts\<close>

lemma demo_reached:
  "fst (handleQueueAdd (NewSlackHandler ''B'')
      \<lparr>Text = ''queue add Fix http://x <@U1> <@U2> <@U1>'', User = ''U0'', Channel = ''C''\<rparr>)
   = demoHandler"
  by (simp add: handleQueueAdd_def NewSlackHandler_def demoHandler_def demoQueue_def
      Fields_def asciiSpace_def Let_def)

lemma parse_approve_1: "parseQueueID (Text (approveBy u)) = Inr 1"
  by (simp add: approveBy_def parseQueueID_def Fields_def asciiSpace_def Atoi_def isDigit_def)

lemma parseQueueID_Inr:
  "parseQueueID t = Inr qid \<longleftrightarrow> 3 \<le> length (Fields t) \<and> Atoi (Fields t ! 2) = Some qid"
  by (auto simp: parseQueueID_def Let_def split: option.splits)

lemma findTag_absent: "t \<notin> set tags \<Longrightarrow> findTag tags t i = - 1"
  by (induction tags arbitrary: i) auto

lemma findTag_present:
  "t \<in> set tags \<Longrightarrow> findTag tags t i = i + int (length (takeWhile (\<lambda>x. x \<noteq> t) tags))"
  by (induction tags arbitrary: i) auto

lemma remove_at_first:
  "t \<in> set tags \<Longrightarrow>
   take (length (takeWhile (\<lambda>x. x \<noteq> t) tags)) tags
     @ drop (Suc (length (takeWhile (\<lambda>x. x \<noteq> t) tags))) tags = remove1 t tags"
  by (induction tags) auto

lemma approve_tagged:
  assumes "parseQueueID (Text ev) = Inr qid" and "Queues sh qid = Some queue"
    and "''<@'' @ User ev @ ''>'' \<in> set (Tags queue)"
  shows "handleQueueApprove sh ks ev =
    (sh\<lparr>Queues := (Queues sh)(qid \<mapsto>
          queue\<lparr>Tags := remove1 (''<@'' @ User ev @ ''>'') (Tags queue)\<rparr>)\<rparr>,
     [MuLock, MuUnlock, PostMessage (Channel ev) ''Queue approved and tag removed.'']
     @ handleQueueList (sh\<lparr>Queues := (Queues sh)(qid \<mapsto>
          queue\<lparr>Tags := remove1 (''<@'' @ User ev @ ''>'') (Tags queue)\<rparr>)\<rparr>) ks ev)"
proof -
  let ?t = "''<@'' @ User ev @ ''>''"
  let ?n = "length (takeWhile (\<lambda>x. x \<noteq> ?t) (Tags queue))"
  have parts: "\<not> length (Fields (Text ev)) < 3" "Atoi (Fields (Text ev) ! 2) = Some qid"
    using assms(1) by (simp_all add: parseQueueID_Inr)
  have idx: "findTag (Tags queue) ?t 0 = int ?n"
    using findTag_present [OF assms(3), of 0] by simp
  have ne: "0 < length (Tags queue)"
    using assms(3) by (cases "Tags queue") auto
  have rm: "take ?n (Tags queue) @ drop (Suc ?n) (Tags queue) = remove1 ?t (Tags queue)"
    by (rule remove_at_first [OF assms(3)])
  have nn: "nat (int ?n + 1) = Suc ?n" by simp
  show ?thesis
    unfolding handleQueueApprove_def Let_def
    using parts assms(2) ne idx rm nn by (simp del: append.simps)
qed

lemma approve_untagged:
  assumes "parseQueueID (Text ev) = Inr qid" and "Queues sh qid = Some queue"
    and "Tags queue \<noteq> []" and "''<@'' @ User ev @ ''>'' \<notin> set (Tags queue)"
  shows "handleQueueApprove sh ks ev =
    (sh, [MuLock, MuUnlock, PostMessage (Channel ev) ''Your tag was not found in the queue.''])"
proof -
  have parts: "\<not> length (Fields (Text ev)) < 3" "Atoi (Fields (Text ev) ! 2) = Some qid"
    using assms(1) by (simp_all add: parseQueueID_Inr)
  show ?thesis
    unfolding handleQueueApprove_def Let_def
    using parts assms(2,3) findTag_absent [OF assms(4), of 0] by (simp del: append.simps)
qed

lemma approve_no_tags:
  assumes "parseQueueID (Text ev) = Inr qid" and "Queues sh qid = Some queue"
    and "Tags queue = []"
  shows "handleQueueApprove sh ks ev =
    (sh, [MuLock, MuUnlock, PostMessage (Channel ev) ''Queue completed; no tags left.'']
         @ handleQueueList sh ks ev)"
proof -
  have parts: "\<not> length (Fields (Text ev)) < 3" "Atoi (Fields (Text ev) ! 2) = Some qid"
    using assms(1) by (simp_all add: parseQueueID_Inr)
  show ?thesis
    unfolding handleQueueApprove_def Let_def
    using parts assms(2,3) by simp
qed

subsection \<open>Approving\<close>

text \<open>
  C1. When the tags of an entry contain the approving user's tag \<^verbatim>\<open><@user>\<close>,
  \<^verbatim>\<open>queue approve\<close> removes its first occurrence and nothing else: the tags before
  it and after it stay as they are and in their order, the other fields of the entry and
  the other entries are untouched, and the user is told that the tag was removed.
\<close>

theorem approve_removes_first_tag:
  assumes "parseQueueID (Text ev) = Inr qid" and "Queues sh qid = Some queue"
    and "''<@'' @ User ev @ ''>'' \<in> set (Tags queue)"
  shows "\<exists>pre post.
           Tags queue = pre @ (''<@'' @ User ev @ ''>'') # post \<and>
           ''<@'' @ User ev @ ''>'' \<notin> set pre \<and>
           remove1 (''<@'' @ User ev @ ''>'') (Tags queue) = pre @ post \<and>
           handleQueueApprove sh ks ev =
             (sh\<lparr>Queues := (Queues sh)(qid \<mapsto> queue\<lparr>Tags := pre @ post\<rparr>)\<rparr>,
              [MuLock, MuUnlock, PostMessage (Channel ev) ''Queue approved and tag removed.'']
              @ handleQueueList
                  (sh\<lparr>Queues := (Queues sh)(qid \<mapsto> queue\<lparr>Tags := pre @ post\<rparr>)\<rparr>) ks ev)"
proof -
  let ?t = "''<@'' @ User ev @ ''>''"
  obtain pre post where split: "Tags queue = pre @ ?t # post" "?t \<notin> set pre"
    using split_list_first [OF assms(3)] by blast
  have rm: "remove1 ?t (Tags queue) = pre @ post"
    using split by (simp add: remove1_append)
  show ?thesis
    using approve_tagged [OF assms, of ks] split rm
    by (intro exI [of _ pre] exI [of _ post]) simp
qed

theorem approve_removes_first_tag_witness:
  "parseQueueID (Text (approveBy ''U1'')) = Inr 1 \<and>
   Queues demoHandler 1 = Some demoQueue \<and>
   ''<@'' @ User (approveBy ''U1'') @ ''>'' \<in> set (Tags demoQueue) \<and>
   Queues (fst (handleQueueApprove demoHandler [1] (approveBy ''U1''))) 1
     = Some (demoQueue\<lparr>Tags := [''<@U2>'', ''<@U1>'']\<rparr>)"
proof -
  have h1: "parseQueueID (Text (approveBy ''U1'')) = Inr 1" by (rule parse_approve_1)
  have h2: "Queues demoHandler 1 = Some demoQueue" by (simp add: demoHandler_def)
  have h3: "''<@'' @ User (approveBy ''U1'') @ ''>'' \<in> set (Tags demoQueue)"
    by (simp add: approveBy_def demoQueue_def)
  from approve_removes_first_tag [OF h1 h2 h3, of "[1]"]
  have "Queues (fst (handleQueueApprove demoHandler [1] (approveBy ''U1''))) 1
     = Some (demoQueue\<lparr>Tags := remove1 (''<@'' @ User (approveBy ''U1'') @ ''>'') (Tags demoQueue)\<rparr>)"
    by auto
  then show ?thesis using h1 h2 h3 by (simp add: approveBy_def demoQueue_def)
qed

lemma approve_keeps_entry:
  assumes "Queues sh qid = Some queue" and "''<@'' @ User ev @ ''>'' \<notin> set (Tags queue)"
  shows "Queues (fst (handleQueueApprove sh ks ev)) qid = Some queue"
proof (cases "parseQueueID (Text ev)")
  case (Inl err)
  then have "length (Fields (Text ev)) < 3 \<or> Atoi (Fields (Text ev) ! 2) = None"
    by (auto simp: parseQueueID_def Let_def split: if_splits option.splits)
  then have "fst (handleQueueApprove sh ks ev) = sh"
    by (auto simp: handleQueueApprove_def Let_def)
  then show ?thesis using assms(1) by simp
next
  case (Inr k)
  show ?thesis
  proof (cases "Queues sh k")
    case None
    then have "fst (handleQueueApprove sh ks ev) = sh"
      using Inr by (simp add: handleQueueApprove_def Let_def parseQueueID_Inr)
    then show ?thesis using assms(1) by simp
  next
    case (Some q)
    show ?thesis
    proof (cases "k = qid")
      case True
      then have q: "q = queue" using Some assms(1) by simp
      show ?thesis
      proof (cases "Tags queue = []")
        case True
        then show ?thesis
          using approve_no_tags [OF Inr Some, of ks] q assms(1) by simp
      next
        case False
        then show ?thesis
          using approve_untagged [OF Inr Some, of ks] q assms by simp
      qed
    next
      case False
      show ?thesis
      proof (cases "''<@'' @ User ev @ ''>'' \<in> set (Tags q)")
        case True
        then show ?thesis
          using approve_tagged [OF Inr Some True, of ks] False assms(1) by simp
      next
        case nt: False
        show ?thesis
        proof (cases "Tags q = []")
          case True
          then show ?thesis using approve_no_tags [OF Inr Some, of ks] assms(1) by simp
        next
          case False
          then show ?thesis using approve_untagged [OF Inr Some False nt, of ks] assms(1) by simp
        qed
      qed
    qed
  qed
qed

lemma approveAll_keeps_entry:
  assumes "Queues sh qid = Some queue"
    and "\<forall>(ks, ev) \<in> set evs. ''<@'' @ User ev @ ''>'' \<notin> set (Tags queue)"
  shows "Queues (approveAll sh evs) qid = Some queue"
  using assms
proof (induction evs arbitrary: sh)
  case Nil
  then show ?case by simp
next
  case (Cons e evs)
  obtain ks ev where e: "e = (ks, ev)" by (cases e)
  have "Queues (fst (handleQueueApprove sh ks ev)) qid = Some queue"
    using Cons.prems e by (intro approve_keeps_entry) auto
  then show ?case using Cons e by simp
qed

text \<open>
  C3. When the tags of an entry are not empty and none of them is the approving user's
  tag \<^verbatim>\<open><@user>\<close>, \<^verbatim>\<open>queue approve\<close> changes nothing: the handler, with every entry
  and every field of it, is the one before the call. It takes and releases the mutex,
  posts the notice that the tag was not found and returns without listing the queues;
  the notice is the handler's rendering of the refusal.
\<close>

theorem approve_untagged_forbidden:
  assumes "parseQueueID (Text ev) = Inr qid" and "Queues sh qid = Some queue"
    and "Tags queue \<noteq> []" and "''<@'' @ User ev @ ''>'' \<notin> set (Tags queue)"
  shows "handleQueueApprove sh ks ev =
    (sh, [MuLock, MuUnlock, PostMessage (Channel ev) ''Your tag was not found in the queue.''])"
  using assms by (rule approve_untagged)

theorem approve_untagged_forbidden_witness:
  "parseQueueID (Text (approveBy ''U3'')) = Inr 1 \<and>
   Queues demoHandler 1 = Some demoQueue \<and>
   Tags demoQueue \<noteq> [] \<and>
   ''<@'' @ User (approveBy ''U3'') @ ''>'' \<notin> set (Tags demoQueue) \<and>
   handleQueueApprove demoHandler [1] (approveBy ''U3'') =
     (demoHandler, [MuLock, MuUnlock, PostMessage ''C'' ''Your tag was not found in the queue.''])"
proof -
  have h1: "parseQueueID (Text (approveBy ''U3'')) = Inr 1" by (rule parse_approve_1)
  have h2: "Queues demoHandler 1 = Some demoQueue" by (simp add: demoHandler_def)
  have h3: "Tags demoQueue \<noteq> []" by (simp add: demoQueue_def)
  have h4: "''<@'' @ User (approveBy ''U3'') @ ''>'' \<notin> set (Tags demoQueue)"
    by (simp add: approveBy_def demoQueue_def)
  show ?thesis
    using approve_untagged_forbidden [OF h1 h2 h3 h4, of "[1]"] h1 h2 h3 h4
    by (simp add: approveBy_def)
qed

text \<open>
  C4. When the tags of an entry are already empty, \<^verbatim>\<open>queue approve\<close> of any user
  leaves the handler as it is, posts the completion notice (not the refusal of an
  untagged user, nor any other error) and goes on to list the queues.
\<close>

theorem approve_empty_tags_completed:
  assumes "parseQueueID (Text ev) = Inr qid" and "Queues sh qid = Some queue"
    and "Tags queue = []"
  shows "handleQueueApprove sh ks ev =
    (sh, [MuLock, MuUnlock, PostMessage (Channel ev) ''Queue completed; no tags left.'']
         @ handleQueueList sh ks ev)"
  using assms by (rule approve_no_tags)

theorem approve_empty_tags_completed_witness:
  "parseQueueID (Text (approveBy ''U3'')) = Inr 1 \<and>
   Queues (demoHandler\<lparr>Queues := [1 \<mapsto> demoQueue\<lparr>Tags := []\<rparr>]\<rparr>) 1 = Some (demoQueue\<lparr>Tags := []\<rparr>) \<and>
   Tags (demoQueue\<lparr>Tags := []\<rparr>) = [] \<and>
   handleQueueApprove (demoHandler\<lparr>Queues := [1 \<mapsto> demoQueue\<lparr>Tags := []\<rparr>]\<rparr>) [1] (approveBy ''U3'') =
     (demoHandler\<lparr>Queues := [1 \<mapsto> demoQueue\<lparr>Tags := []\<rparr>]\<rparr>,
      [MuLock, MuUnlock, PostMessage ''C'' ''Queue completed; no tags left.'',
       MuLock, PostMessage ''C'' ''ID: 1 | Title: Fix | MR: http://x | Tags: \<newline>'', MuUnlock])"
proof -
  have h1: "parseQueueID (Text (approveBy ''U3'')) = Inr 1" by (rule parse_approve_1)
  have h2: "Queues (demoHandler\<lparr>Queues := [1 \<mapsto> demoQueue\<lparr>Tags := []\<rparr>]\<rparr>) 1 = Some (demoQueue\<lparr>Tags := []\<rparr>)"
    by simp
  have h3: "Tags (demoQueue\<lparr>Tags := []\<rparr>) = []" by simp
  have fmt: "formatInt 1 = ''1''"
    by (simp add: formatInt_def natDigits.simps digitChar_def)
  show ?thesis
    using approve_empty_tags_completed [OF h1 h2 h3, of "[1]"] h1 fmt
    by (simp add: approveBy_def handleQueueList_def queueLine_def demoQueue_def List.map_filter_simps)
qed

text \<open>
  C8. When the only tag left on an entry is the approving user's, the approval empties
  the tags and does nothing else: the entry stays in the map under its id, with its id,
  title, link, owner and review flag as before (the record has no field that marks an
  entry as completed), and the map has the same keys.
\<close>

theorem approve_last_tag_keeps_entry:
  assumes "parseQueueID (Text ev) = Inr qid" and "Queues sh qid = Some queue"
    and "Tags queue = [''<@'' @ User ev @ ''>'']"
  shows "fst (handleQueueApprove sh ks ev) = sh\<lparr>Queues := (Queues sh)(qid \<mapsto> queue\<lparr>Tags := []\<rparr>)\<rparr> \<and>
         Queues (fst (handleQueueApprove sh ks ev)) qid = Some (queue\<lparr>Tags := []\<rparr>) \<and>
         dom (Queues (fst (handleQueueApprove sh ks ev))) = dom (Queues sh)"
proof -
  have "''<@'' @ User ev @ ''>'' \<in> set (Tags queue)" using assms(3) by simp
  from approve_tagged [OF assms(1,2) this, of ks] assms(2,3)
  show ?thesis by (auto simp del: append.simps)
qed

theorem approve_last_tag_keeps_entry_witness:
  "parseQueueID (Text (approveBy ''U1'')) = Inr 1 \<and>
   Queues (demoHandler\<lparr>Queues := [1 \<mapsto> demoQueue\<lparr>Tags := [''<@U1>''], InReviewState := True\<rparr>]\<rparr>) 1
     = Some (demoQueue\<lparr>Tags := [''<@U1>''], InReviewState := True\<rparr>) \<and>
   Tags (demoQueue\<lparr>Tags := [''<@U1>''], InReviewState := True\<rparr>) = [''<@'' @ User (approveBy ''U1'') @ ''>''] \<and>
   Queues (fst (handleQueueApprove
        (demoHandler\<lparr>Queues := [1 \<mapsto> demoQueue\<lparr>Tags := [''<@U1>''], InReviewState := True\<rparr>]\<rparr>)
        [1] (approveBy ''U1''))) 1
     = Some \<lparr>ID = 1, Title = ''Fix'', MRLink = ''http://x'', Tags = [], Owner = ''U0'', InReviewState = True\<rparr>"
proof -
  have h1: "parseQueueID (Text (approveBy ''U1'')) = Inr 1" by (rule parse_approve_1)
  have h2: "Queues (demoHandler\<lparr>Queues := [1 \<mapsto> demoQueue\<lparr>Tags := [''<@U1>''], InReviewState := True\<rparr>]\<rparr>) 1
     = Some (demoQueue\<lparr>Tags := [''<@U1>''], InReviewState := True\<rparr>)"
    by simp
  have h3: "Tags (demoQueue\<lparr>Tags := [''<@U1>''], InReviewState := True\<rparr>) = [''<@'' @ User (approveBy ''U1'') @ ''>'']"
    by (simp add: approveBy_def)
  show ?thesis
    using approve_last_tag_keeps_entry [OF h1 h2 h3, of "[1]"] h1 h3
    by (simp add: demoQueue_def)
qed


text \<open>
  C10. On an entry with tags, \<^verbatim>\<open>queue approve\<close> changes the handler exactly when
  some tag is the string \<^verbatim>\<open><@user>\<close> built from the approving user. When no tag has
  this form (a bare \<^verbatim>\<open>@name\<close>, say), the approval is refused with the notice that the
  tag was not found, and however often this user approves, whatever the ids, the entry
  keeps all its tags.
\<close>

theorem approve_needs_exact_mention:
  assumes "parseQueueID (Text ev) = Inr qid" and "Queues sh qid = Some queue"
    and "Tags queue \<noteq> []"
  shows "(fst (handleQueueApprove sh ks ev) \<noteq> sh \<longleftrightarrow> ''<@'' @ User ev @ ''>'' \<in> set (Tags queue)) \<and>
         (''<@'' @ User ev @ ''>'' \<notin> set (Tags queue) \<longrightarrow>
            handleQueueApprove sh ks ev =
              (sh, [MuLock, MuUnlock,
                    PostMessage (Channel ev) ''Your tag was not found in the queue.'']) \<and>
            ((\<forall>e \<in> set evs. User (snd e) = User ev) \<longrightarrow>
               Queues (approveAll sh evs) qid = Some queue))"
proof (cases "''<@'' @ User ev @ ''>'' \<in> set (Tags queue)")
  case True
  let ?q' = "queue\<lparr>Tags := remove1 (''<@'' @ User ev @ ''>'') (Tags queue)\<rparr>"
  have "length (remove1 (''<@'' @ User ev @ ''>'') (Tags queue)) < length (Tags queue)"
    using True assms(3) by (simp add: length_remove1)
  then have "Tags ?q' \<noteq> Tags queue" by auto
  then have "?q' \<noteq> queue" by (metis (no_types))
  moreover have "Queues (fst (handleQueueApprove sh ks ev)) qid = Some ?q'"
    using approve_tagged [OF assms(1,2) True, of ks] by simp
  ultimately have "fst (handleQueueApprove sh ks ev) \<noteq> sh"
    using assms(2) by auto
  then show ?thesis using True by simp
next
  case False
  have same: "handleQueueApprove sh ks ev =
      (sh, [MuLock, MuUnlock, PostMessage (Channel ev) ''Your tag was not found in the queue.''])"
    by (rule approve_untagged [OF assms False])
  have "Queues (approveAll sh evs) qid = Some queue" if "\<forall>e \<in> set evs. User (snd e) = User ev"
    using assms(2) that False by (intro approveAll_keeps_entry) auto
  then show ?thesis using False same by simp
qed

theorem approve_needs_exact_mention_witness:
  "parseQueueID (Text (approveBy ''alice'')) = Inr 1 \<and>
   Queues (demoHandler\<lparr>Queues := [1 \<mapsto> demoQueue\<lparr>Tags := [''@alice'', ''<@U2>'']\<rparr>]\<rparr>) 1
     = Some (demoQueue\<lparr>Tags := [''@alice'', ''<@U2>'']\<rparr>) \<and>
   Tags (demoQueue\<lparr>Tags := [''@alice'', ''<@U2>'']\<rparr>) \<noteq> [] \<and>
   ''<@'' @ User (approveBy ''alice'') @ ''>'' \<notin> set (Tags (demoQueue\<lparr>Tags := [''@alice'', ''<@U2>'']\<rparr>)) \<and>
   User (snd ([1], approveBy ''alice'')) = User (approveBy ''alice'') \<and>
   handleQueueApprove (demoHandler\<lparr>Queues := [1 \<mapsto> demoQueue\<lparr>Tags := [''@alice'', ''<@U2>'']\<rparr>]\<rparr>)
       [1] (approveBy ''alice'')
     = (demoHandler\<lparr>Queues := [1 \<mapsto> demoQueue\<lparr>Tags := [''@alice'', ''<@U2>'']\<rparr>]\<rparr>,
        [MuLock, MuUnlock, PostMessage ''C'' ''Your tag was not found in the queue.'']) \<and>
   Queues (approveAll (demoHandler\<lparr>Queues := [1 \<mapsto> demoQueue\<lparr>Tags := [''@alice'', ''<@U2>'']\<rparr>]\<rparr>)
       [([1], approveBy ''alice''), ([1], approveBy ''alice'')]) 1
     = Some (demoQueue\<lparr>Tags := [''@alice'', ''<@U2>'']\<rparr>)"
proof -
  let ?q = "demoQueue\<lparr>Tags := [''@alice'', ''<@U2>'']\<rparr>"
  let ?sh = "demoHandler\<lparr>Queues := [1 \<mapsto> ?q]\<rparr>"
  have h1: "parseQueueID (Text (approveBy ''alice'')) = Inr 1" by (rule parse_approve_1)
  have h2: "Queues ?sh 1 = Some ?q" by simp
  have h3: "Tags ?q \<noteq> []" by simp
  have h4: "''<@'' @ User (approveBy ''alice'') @ ''>'' \<notin> set (Tags ?q)"
    by (simp add: approveBy_def)
  have h5: "\<forall>e \<in> set [([1], approveBy ''alice''), ([1::go_int], approveBy ''alice'')].
              User (snd e) = User (approveBy ''alice'')"
    by simp
  show ?thesis
    using approve_needs_exact_mention [OF h1 h2 h3,
        of "[1]" "[([1], approveBy ''alice''), ([1], approveBy ''alice'')]"] h1 h4 h5
    by (simp add: approveBy_def)
qed

subsection \<open>Review and update\<close>

lemma review_found:
  assumes "parseQueueID (Text ev) = Inr qid" and "Queues sh qid = Some queue"
  shows "fst (handleQueueReview sh ks ev) =
           sh\<lparr>Queues := (Queues sh)(qid \<mapsto> queue\<lparr>InReviewState := True\<rparr>)\<rparr>"
  using assms by (simp add: handleQueueReview_def Let_def)

lemma update_found:
  assumes "parseQueueID (Text ev) = Inr qid" and "Queues sh qid = Some queue"
  shows "fst (handleQueueUpdate sh ks ev) =
           sh\<lparr>Queues := (Queues sh)(qid \<mapsto> queue\<lparr>InReviewState := False\<rparr>)\<rparr>"
  using assms by (simp add: handleQueueUpdate_def Let_def)

text \<open>
  C7. For an entry of the registry, \<^verbatim>\<open>queue review\<close> followed by \<^verbatim>\<open>queue update\<close>
  of the same id leaves the entry with the review flag off and its tags, title, link,
  owner and id as before; the other entries and the counter do not change.
\<close>

theorem review_then_update:
  assumes "parseQueueID (Text ev1) = Inr qid" and "parseQueueID (Text ev2) = Inr qid"
    and "Queues sh qid = Some queue"
  shows "fst (handleQueueUpdate (fst (handleQueueReview sh ks1 ev1)) ks2 ev2) =
           sh\<lparr>Queues := (Queues sh)(qid \<mapsto> queue\<lparr>InReviewState := False\<rparr>)\<rparr> \<and>
         (\<exists>queue'.
            Queues (fst (handleQueueUpdate (fst (handleQueueReview sh ks1 ev1)) ks2 ev2)) qid
              = Some queue' \<and>
            InReviewState queue' = False \<and> Tags queue' = Tags queue \<and>
            Title queue' = Title queue \<and> MRLink queue' = MRLink queue \<and>
            Owner queue' = Owner queue \<and> ID queue' = ID queue)"
proof -
  let ?sh1 = "sh\<lparr>Queues := (Queues sh)(qid \<mapsto> queue\<lparr>InReviewState := True\<rparr>)\<rparr>"
  have r: "fst (handleQueueReview sh ks1 ev1) = ?sh1"
    by (rule review_found [OF assms(1,3)])
  have "Queues ?sh1 qid = Some (queue\<lparr>InReviewState := True\<rparr>)" by simp
  from update_found [OF assms(2) this, of ks2]
  have "fst (handleQueueUpdate (fst (handleQueueReview sh ks1 ev1)) ks2 ev2) =
           sh\<lparr>Queues := (Queues sh)(qid \<mapsto> queue\<lparr>InReviewState := False\<rparr>)\<rparr>"
    using r by simp
  then show ?thesis by simp
qed

theorem review_then_update_witness:
  "parseQueueID (Text \<lparr>Text = ''queue review 1'', User = ''U0'', Channel = ''C''\<rparr>) = Inr 1 \<and>
   parseQueueID (Text \<lparr>Text = ''queue update 1'', User = ''U0'', Channel = ''C''\<rparr>) = Inr 1 \<and>
   Queues demoHandler 1 = Some demoQueue \<and>
   fst (handleQueueUpdate
         (fst (handleQueueReview demoHandler [1] \<lparr>Text = ''queue review 1'', User = ''U0'', Channel = ''C''\<rparr>))
         [1] \<lparr>Text = ''queue update 1'', User = ''U0'', Channel = ''C''\<rparr>) = demoHandler"
proof -
  have h1: "parseQueueID (Text \<lparr>Text = ''queue review 1'', User = ''U0'', Channel = ''C''\<rparr>) = Inr 1"
    by (simp add: parseQueueID_def Fields_def asciiSpace_def Atoi_def isDigit_def)
  have h2: "parseQueueID (Text \<lparr>Text = ''queue update 1'', User = ''U0'', Channel = ''C''\<rparr>) = Inr 1"
    by (simp add: parseQueueID_def Fields_def asciiSpace_def Atoi_def isDigit_def)
  have h3: "Queues demoHandler 1 = Some demoQueue" by (simp add: demoHandler_def)
  have same: "demoHandler\<lparr>Queues := (Queues demoHandler)(1 \<mapsto> demoQueue\<lparr>InReviewState := False\<rparr>)\<rparr> = demoHandler"
    by (simp add: demoHandler_def demoQueue_def)
  show ?thesis
    using review_then_update [OF h1 h2 h3, of "[1]" "[1]"] h1 h2 h3 same by simp
qed

subsection \<open>Adding\<close>

lemma add_creates:
  assumes "4 \<le> length (Fields (Text ev))"
  shows "handleQueueAdd sh ev =
    (sh\<lparr>Queues := (Queues sh)(NextID sh \<mapsto>
           \<lparr>ID = NextID sh, Title = Fields (Text ev) ! 2, MRLink = Fields (Text ev) ! 3,
            Tags = drop 4 (Fields (Text ev)), Owner = User ev, InReviewState = False\<rparr>),
        NextID := NextID sh + 1\<rparr>,
     [MuLock,
      PostMessage (Channel ev)
        (''Queue added: *'' @ Fields (Text ev) ! 2 @ ''*\<newline>MR Link: '' @ Fields (Text ev) ! 3
         @ ''\<newline>Tags: '' @ Join (drop 4 (Fields (Text ev))) '', ''),
      MuUnlock])"
  using assms by (simp add: handleQueueAdd_def Let_def del: append.simps)

lemma add_usage:
  assumes "length (Fields (Text ev)) < 4"
  shows "handleQueueAdd sh ev =
    (sh, [PostMessage (Channel ev) ''Usage: queue add <title> <MR link> @tag @tag''])"
  using assms by (simp add: handleQueueAdd_def Let_def)

lemma addStates_length: "length (addStates sh evs) = Suc (length evs)"
  by (induction evs arbitrary: sh) auto

lemma addStates_Suc:
  "i < length evs \<Longrightarrow>
   addStates sh evs ! Suc i = fst (handleQueueAdd (addStates sh evs ! i) (evs ! i))"
proof (induction evs arbitrary: sh i)
  case Nil
  then show ?case by simp
next
  case (Cons ev evs)
  show ?case
  proof (cases i)
    case 0
    then show ?thesis by (cases evs) auto
  next
    case (Suc j)
    then show ?thesis using Cons by simp
  qed
qed

lemma addStates_NextID:
  "i \<le> length evs \<Longrightarrow>
   NextID (addStates sh evs ! i) =
     NextID sh + of_nat (length (filter (\<lambda>ev. 4 \<le> length (Fields (Text ev))) (take i evs)))"
proof (induction evs arbitrary: sh i)
  case Nil
  then show ?case by simp
next
  case (Cons ev evs)
  show ?case
  proof (cases i)
    case 0
    then show ?thesis by simp
  next
    case (Suc j)
    have step: "NextID (fst (handleQueueAdd sh ev)) =
        NextID sh + (if 4 \<le> length (Fields (Text ev)) then 1 else 0)"
      by (cases "4 \<le> length (Fields (Text ev))") (simp_all add: add_creates add_usage)
    show ?thesis using Cons Suc step by simp
  qed
qed

lemma sint_add_of_nat:
  fixes w :: go_int
  assumes "sint w + int n < 2 ^ 63"
  shows "sint (w + of_nat n) = sint w + int n"
proof -
  have "w + of_nat n = word_of_int (sint w + int n)" by simp
  then have "sint (w + of_nat n) = signed_take_bit 63 (sint w + int n)"
    by (simp only: sint_sbintrunc') simp
  moreover have "- (2 ^ 63) \<le> sint w + int n"
    using sint_ge [of w] by simp
  ultimately show ?thesis
    using assms by (simp add: signed_take_bit_int_eq_self)
qed

text \<open>At the largest \<^verbatim>\<open>int\<close> the counter wraps around to the smallest one.\<close>

lemma add_counter_wraps:
  assumes "4 \<le> length (Fields (Text ev))" and "NextID sh = 0x7FFFFFFFFFFFFFFF"
  shows "sint (NextID (fst (handleQueueAdd sh ev))) = - (2 ^ 63)"
  using assms by (simp add: add_creates)

text \<open>
  C2. Along any sequence of \<^verbatim>\<open>queue add\<close> messages, each message with a title and
  a link stores its entry under the value of the counter and with that value as its id,
  and moves the counter up by one; a message with too few words changes nothing. So the
  ids handed out are strictly increasing, and no two entries get the same one. The
  counter is a 64-bit \<^verbatim>\<open>int\<close>: the statement is for runs that keep it below \<open>2\<^sup>6\<^sup>3\<close>,
  which from a fresh handler (counter 1) is every run of fewer than \<open>2\<^sup>6\<^sup>3 - 1\<close> messages.
\<close>

theorem add_ids_strictly_increasing:
  assumes "sint (NextID sh) + int (length evs) < 2 ^ 63"
  shows "(\<forall>i < length evs. 4 \<le> length (Fields (Text (evs ! i))) \<longrightarrow>
            (\<exists>queue. Queues (addStates sh evs ! Suc i) (NextID (addStates sh evs ! i)) = Some queue
                     \<and> ID queue = NextID (addStates sh evs ! i)) \<and>
            sint (NextID (addStates sh evs ! Suc i)) = sint (NextID (addStates sh evs ! i)) + 1) \<and>
         (\<forall>i < length evs. length (Fields (Text (evs ! i))) < 4 \<longrightarrow>
            addStates sh evs ! Suc i = addStates sh evs ! i) \<and>
         (\<forall>i j. i < j \<and> j < length evs \<and> 4 \<le> length (Fields (Text (evs ! i)))
                \<and> 4 \<le> length (Fields (Text (evs ! j))) \<longrightarrow>
            NextID (addStates sh evs ! i) <s NextID (addStates sh evs ! j) \<and>
            NextID (addStates sh evs ! i) \<noteq> NextID (addStates sh evs ! j))"
proof -
  let ?made = "\<lambda>i. length (filter (\<lambda>ev. 4 \<le> length (Fields (Text ev))) (take i evs))"
  have made_le: "?made i \<le> length evs" for i
    by (rule order_trans [OF length_filter_le]) simp
  have val: "sint (NextID (addStates sh evs ! i)) = sint (NextID sh) + int (?made i)"
    if "i \<le> length evs" for i
  proof -
    have "sint (NextID sh) + int (?made i) < 2 ^ 63"
      using assms made_le [of i] by linarith
    then show ?thesis
      using addStates_NextID [OF that, of sh] by (simp add: sint_add_of_nat)
  qed
  have made_Suc: "?made (Suc i) = Suc (?made i)"
    if "i < length evs" "4 \<le> length (Fields (Text (evs ! i)))" for i
    using that by (simp add: take_Suc_conv_app_nth)
  have made_mono: "?made i \<le> ?made j" if "i \<le> j" for i j
  proof -
    have "take j evs = take i evs @ take (j - i) (drop i evs)"
      using that by (metis le_add_diff_inverse take_add)
    then show ?thesis by simp
  qed
  have one: "(\<exists>queue. Queues (addStates sh evs ! Suc i) (NextID (addStates sh evs ! i)) = Some queue
                     \<and> ID queue = NextID (addStates sh evs ! i)) \<and>
            sint (NextID (addStates sh evs ! Suc i)) = sint (NextID (addStates sh evs ! i)) + 1"
    if "i < length evs" "4 \<le> length (Fields (Text (evs ! i)))" for i
  proof -
    have "addStates sh evs ! Suc i = fst (handleQueueAdd (addStates sh evs ! i) (evs ! i))"
      by (rule addStates_Suc [OF that(1)])
    then have "\<exists>queue. Queues (addStates sh evs ! Suc i) (NextID (addStates sh evs ! i)) = Some queue
                     \<and> ID queue = NextID (addStates sh evs ! i)"
      using that(2) by (simp add: add_creates)
    moreover have "sint (NextID (addStates sh evs ! Suc i)) = sint (NextID (addStates sh evs ! i)) + 1"
      using that val [of i] val [of "Suc i"] made_Suc [OF that] by simp
    ultimately show ?thesis by simp
  qed
  have two: "addStates sh evs ! Suc i = addStates sh evs ! i"
    if "i < length evs" "length (Fields (Text (evs ! i))) < 4" for i
    using addStates_Suc [OF that(1), of sh] that(2) by (simp add: add_usage)
  have three: "NextID (addStates sh evs ! i) <s NextID (addStates sh evs ! j) \<and>
            NextID (addStates sh evs ! i) \<noteq> NextID (addStates sh evs ! j)"
    if "i < j" "j < length evs" "4 \<le> length (Fields (Text (evs ! i)))" for i j
  proof -
    have "?made i < ?made (Suc i)" using made_Suc [of i] that by simp
    also have "\<dots> \<le> ?made j" using that(1) by (intro made_mono) simp
    finally have "sint (NextID (addStates sh evs ! i)) < sint (NextID (addStates sh evs ! j))"
      using val [of i] val [of j] that by simp
    then show ?thesis by (auto simp: word_sless_alt)
  qed
  show ?thesis using one two three by blast
qed


theorem add_ids_strictly_increasing_witness:
  "sint (NextID (NewSlackHandler ''B''))
     + int (length [\<lparr>Text = ''queue add Fix http://x @alice @bob'', User = ''U0'', Channel = ''C''\<rparr>,
                    \<lparr>Text = ''queue add Fix'', User = ''U0'', Channel = ''C''\<rparr>,
                    \<lparr>Text = ''queue add Doc http://y'', User = ''U5'', Channel = ''C''\<rparr>]) < 2 ^ 63 \<and>
   map NextID (addStates (NewSlackHandler ''B'')
      [\<lparr>Text = ''queue add Fix http://x @alice @bob'', User = ''U0'', Channel = ''C''\<rparr>,
       \<lparr>Text = ''queue add Fix'', User = ''U0'', Channel = ''C''\<rparr>,
       \<lparr>Text = ''queue add Doc http://y'', User = ''U5'', Channel = ''C''\<rparr>]) = [1, 2, 2, 3] \<and>
   NextID (addStates (NewSlackHandler ''B'')
      [\<lparr>Text = ''queue add Fix http://x @alice @bob'', User = ''U0'', Channel = ''C''\<rparr>,
       \<lparr>Text = ''queue add Fix'', User = ''U0'', Channel = ''C''\<rparr>,
       \<lparr>Text = ''queue add Doc http://y'', User = ''U5'', Channel = ''C''\<rparr>] ! 0)
   <s NextID (addStates (NewSlackHandler ''B'')
      [\<lparr>Text = ''queue add Fix http://x @alice @bob'', User = ''U0'', Channel = ''C''\<rparr>,
       \<lparr>Text = ''queue add Fix'', User = ''U0'', Channel = ''C''\<rparr>,
       \<lparr>Text = ''queue add Doc http://y'', User = ''U5'', Channel = ''C''\<rparr>] ! 2)"
proof -
  let ?evs = "[\<lparr>Text = ''queue add Fix http://x @alice @bob'', User = ''U0'', Channel = ''C''\<rparr>,
               \<lparr>Text = ''queue add Fix'', User = ''U0'', Channel = ''C''\<rparr>,
               \<lparr>Text = ''queue add Doc http://y'', User = ''U5'', Channel = ''C''\<rparr>]"
  have h: "sint (NextID (NewSlackHandler ''B'')) + int (length ?evs) < 2 ^ 63"
    by (simp add: NewSlackHandler_def)
  have f0: "4 \<le> length (Fields (Text (?evs ! 0)))"
    by (simp add: Fields_def asciiSpace_def)
  have f2: "4 \<le> length (Fields (Text (?evs ! 2)))"
    by (simp add: Fields_def asciiSpace_def)
  have ids: "map NextID (addStates (NewSlackHandler ''B'') ?evs) = [1, 2, 2, 3]"
    by (simp add: handleQueueAdd_def NewSlackHandler_def Fields_def asciiSpace_def Let_def)
  have "NextID (addStates (NewSlackHandler ''B'') ?evs ! 0)
        <s NextID (addStates (NewSlackHandler ''B'') ?evs ! 2)"
    using add_ids_strictly_increasing [OF h] f0 f2 by (simp del: addStates.simps)
  then show ?thesis using h ids by simp
qed


lemma remove_state:
  "NextID (fst (handleQueueRemove sh ev)) = NextID sh"
  "dom (Queues (fst (handleQueueRemove sh ev))) \<subseteq> dom (Queues sh)"
  by (auto simp: handleQueueRemove_def split: sum.splits option.splits if_splits)

lemma review_state:
  "NextID (fst (handleQueueReview sh ks ev)) = NextID sh"
  "dom (Queues (fst (handleQueueReview sh ks ev))) \<subseteq> dom (Queues sh)"
  by (auto simp: handleQueueReview_def Let_def split: sum.splits option.splits if_splits)

lemma update_state:
  "NextID (fst (handleQueueUpdate sh ks ev)) = NextID sh"
  "dom (Queues (fst (handleQueueUpdate sh ks ev))) \<subseteq> dom (Queues sh)"
  by (auto simp: handleQueueUpdate_def Let_def split: sum.splits option.splits if_splits)

lemma approve_state:
  "NextID (fst (handleQueueApprove sh ks ev)) = NextID sh"
  "dom (Queues (fst (handleQueueApprove sh ks ev))) \<subseteq> dom (Queues sh)"
  by (auto simp: handleQueueApprove_def Let_def split: option.splits if_splits)

lemma add_state:
  "NextID (fst (handleQueueAdd sh ev)) = NextID sh \<and> Queues (fst (handleQueueAdd sh ev)) = Queues sh
   \<or> NextID (fst (handleQueueAdd sh ev)) = NextID sh + 1
      \<and> dom (Queues (fst (handleQueueAdd sh ev))) = insert (NextID sh) (dom (Queues sh))"
  by (cases "4 \<le> length (Fields (Text ev))") (simp_all add: add_creates add_usage)

lemma sint_Suc_counter:
  fixes w :: go_int
  assumes "sint w + 1 < 2 ^ 63"
  shows "sint (w + 1) = sint w + 1"
  using sint_add_of_nat [of w 1] assms by simp

lemma keys_stay_below:
  fixes n :: go_int
  assumes "\<forall>k \<in> dom m. k <s n" and "dom m' \<subseteq> dom m"
  shows "\<forall>k \<in> dom m'. k <s n"
  using assms by blast

lemma step_counter:
  assumes "\<forall>k \<in> dom (Queues sh). k <s NextID sh" and "sint (NextID sh) + 1 < 2 ^ 63"
  shows "(\<forall>k \<in> dom (Queues (step sh c)). k <s NextID (step sh c)) \<and>
         sint (NextID (step sh c)) \<le> sint (NextID sh) + 1"
proof (cases c)
  case (QueueAdd ev)
  have up: "sint (NextID sh + 1) = sint (NextID sh) + 1"
    by (rule sint_Suc_counter [OF assms(2)])
  from add_state [of sh ev] show ?thesis
  proof
    assume "NextID (fst (handleQueueAdd sh ev)) = NextID sh \<and>
            Queues (fst (handleQueueAdd sh ev)) = Queues sh"
    then show ?thesis using assms(1) QueueAdd by simp
  next
    assume a: "NextID (fst (handleQueueAdd sh ev)) = NextID sh + 1 \<and>
      dom (Queues (fst (handleQueueAdd sh ev))) = insert (NextID sh) (dom (Queues sh))"
    have "k <s NextID sh + 1" if "k = NextID sh \<or> k \<in> dom (Queues sh)" for k
    proof -
      have "sint k \<le> sint (NextID sh)"
      proof (cases "k = NextID sh")
        case True
        then show ?thesis by simp
      next
        case False
        then have "k <s NextID sh" using that assms(1) by blast
        then show ?thesis by (simp add: word_sless_alt)
      qed
      then show ?thesis using up by (simp add: word_sless_alt)
    qed
    then show ?thesis using a up QueueAdd by simp
  qed
next
  case (QueueList ks ev)
  then show ?thesis using assms(1) by simp
next
  case (QueueRemove ev)
  then show ?thesis
    using keys_stay_below [OF assms(1) remove_state(2) [of sh ev]] remove_state(1) [of sh ev] by simp
next
  case (QueueApprove ks ev)
  then show ?thesis
    using keys_stay_below [OF assms(1) approve_state(2) [of sh ks ev]] approve_state(1) [of sh ks ev] by simp
next
  case (QueueReview ks ev)
  then show ?thesis
    using keys_stay_below [OF assms(1) review_state(2) [of sh ks ev]] review_state(1) [of sh ks ev] by simp
next
  case (QueueUpdate ks ev)
  then show ?thesis
    using keys_stay_below [OF assms(1) update_state(2) [of sh ks ev]] update_state(1) [of sh ks ev] by simp
qed

lemma run_counter:
  assumes "\<forall>k \<in> dom (Queues sh). k <s NextID sh"
    and "sint (NextID sh) + int (length cs) < 2 ^ 63"
  shows "\<forall>k \<in> dom (Queues (run sh cs)). k <s NextID (run sh cs)"
  using assms
proof (induction cs arbitrary: sh)
  case Nil
  then show ?case by simp
next
  case (Cons c cs)
  have one: "sint (NextID sh) + 1 < 2 ^ 63" using Cons.prems(2) by simp
  from step_counter [OF Cons.prems(1) one, of c]
  have inv: "\<forall>k \<in> dom (Queues (step sh c)). k <s NextID (step sh c)"
    and le: "sint (NextID (step sh c)) \<le> sint (NextID sh) + 1"
    by simp_all
  have "sint (NextID (step sh c)) + int (length cs) < 2 ^ 63"
    using le Cons.prems(2) by simp
  from Cons.IH [OF inv this] show ?case by simp
qed

lemma fresh_id:
  assumes "int (length cs) < 2 ^ 63 - 1"
  shows "Queues (run (NewSlackHandler b) cs) (NextID (run (NewSlackHandler b) cs)) = None"
proof -
  have "\<forall>k \<in> dom (Queues (NewSlackHandler b)). k <s NextID (NewSlackHandler b)"
    by (simp add: NewSlackHandler_def)
  moreover have "sint (NextID (NewSlackHandler b)) + int (length cs) < 2 ^ 63"
    using assms by (simp add: NewSlackHandler_def)
  ultimately have "\<forall>k \<in> dom (Queues (run (NewSlackHandler b) cs)).
      k <s NextID (run (NewSlackHandler b) cs)"
    by (rule run_counter)
  then show ?thesis by (auto simp: word_sless_alt)
qed

text \<open>
  C5, as the handler has it. A \<^verbatim>\<open>queue add\<close> message with a title and a link takes
  the value of the counter as the id, stores under it the entry with the title, the link,
  the remaining words as tags, the sender as owner and the review flag off, moves the
  counter on, and posts a confirmation with the title, the link and the tags joined by
  commas. The confirmation is made of these three alone: it is the same message whatever
  the value of the counter. The id is new, that is no entry is stored under it, in every
  state that fewer than \<open>2\<^sup>6\<^sup>3 - 1\<close> calls of the handlers reach from a fresh handler.
\<close>

theorem add_creates_entry:
  assumes "4 \<le> length (Fields (Text ev))"
  shows "\<exists>msg.
     handleQueueAdd sh ev =
       (sh\<lparr>Queues := (Queues sh)(NextID sh \<mapsto>
              \<lparr>ID = NextID sh, Title = Fields (Text ev) ! 2, MRLink = Fields (Text ev) ! 3,
               Tags = drop 4 (Fields (Text ev)), Owner = User ev, InReviewState = False\<rparr>),
           NextID := NextID sh + 1\<rparr>,
        [MuLock, PostMessage (Channel ev) msg, MuUnlock]) \<and>
     msg = ''Queue added: *'' @ Fields (Text ev) ! 2 @ ''*\<newline>MR Link: '' @ Fields (Text ev) ! 3
           @ ''\<newline>Tags: '' @ Join (drop 4 (Fields (Text ev))) '', '' \<and>
     sublist (Fields (Text ev) ! 2) msg \<and>
     sublist (Fields (Text ev) ! 3) msg \<and>
     sublist (Join (drop 4 (Fields (Text ev))) '', '') msg \<and>
     snd (handleQueueAdd (sh\<lparr>NextID := n\<rparr>) ev) = [MuLock, PostMessage (Channel ev) msg, MuUnlock] \<and>
     (sh = run (NewSlackHandler b) cs \<and> int (length cs) < 2 ^ 63 - 1 \<longrightarrow>
        Queues sh (NextID sh) = None)"
proof -
  let ?title = "Fields (Text ev) ! 2" and ?link = "Fields (Text ev) ! 3"
  let ?tags = "Join (drop 4 (Fields (Text ev))) '', ''"
  let ?msg = "''Queue added: *'' @ ?title @ ''*\<newline>MR Link: '' @ ?link @ ''\<newline>Tags: '' @ ?tags"
  have s1: "sublist ?title ?msg" by (rule sublist_appendI)
  have "sublist ?link (?link @ ''\<newline>Tags: '' @ ?tags)" by (rule sublist_append_rightI)
  then have s2: "sublist ?link ?msg"
    by (metis append_assoc sublist_appendI)
  have s3: "sublist ?tags ?msg"
    by (metis append_assoc sublist_append_leftI)
  have same: "snd (handleQueueAdd (sh\<lparr>NextID := n\<rparr>) ev)
      = [MuLock, PostMessage (Channel ev) ?msg, MuUnlock]"
    using add_creates [OF assms, of "sh\<lparr>NextID := n\<rparr>"] by simp
  have fresh: "sh = run (NewSlackHandler b) cs \<and> int (length cs) < 2 ^ 63 - 1 \<longrightarrow>
        Queues sh (NextID sh) = None"
  proof
    assume a: "sh = run (NewSlackHandler b) cs \<and> int (length cs) < 2 ^ 63 - 1"
    then have "Queues (run (NewSlackHandler b) cs) (NextID (run (NewSlackHandler b) cs)) = None"
      by (intro fresh_id) simp
    then show "Queues sh (NextID sh) = None" using a by simp
  qed
  show ?thesis
    using add_creates [OF assms, of sh] s1 s2 s3 same fresh by (intro exI [of _ ?msg]) blast
qed

theorem add_creates_entry_witness:
  "4 \<le> length (Fields (Text \<lparr>Text = ''queue add 1 http://y'', User = ''U5'', Channel = ''C''\<rparr>)) \<and>
   demoHandler = run (NewSlackHandler ''B'')
     [QueueAdd \<lparr>Text = ''queue add Fix http://x <@U1> <@U2> <@U1>'', User = ''U0'', Channel = ''C''\<rparr>] \<and>
   int (length [QueueAdd \<lparr>Text = ''queue add Fix http://x <@U1> <@U2> <@U1>'', User = ''U0'', Channel = ''C''\<rparr>])
     < 2 ^ 63 - 1 \<and>
   Queues demoHandler (NextID demoHandler) = None \<and>
   handleQueueAdd demoHandler \<lparr>Text = ''queue add 1 http://y'', User = ''U5'', Channel = ''C''\<rparr>
     = (\<lparr>Queues = [1 \<mapsto> demoQueue,
                    2 \<mapsto> \<lparr>ID = 2, Title = ''1'', MRLink = ''http://y'', Tags = [],
                           Owner = ''U5'', InReviewState = False\<rparr>],
         NextID = 3, BotUserID = ''B''\<rparr>,
        [MuLock, PostMessage ''C'' ''Queue added: *1*\<newline>MR Link: http://y\<newline>Tags: '', MuUnlock]) \<and>
   snd (handleQueueAdd (demoHandler\<lparr>NextID := 7\<rparr>)
          \<lparr>Text = ''queue add 1 http://y'', User = ''U5'', Channel = ''C''\<rparr>)
     = [MuLock, PostMessage ''C'' ''Queue added: *1*\<newline>MR Link: http://y\<newline>Tags: '', MuUnlock]"
proof -
  let ?ev = "\<lparr>Text = ''queue add 1 http://y'', User = ''U5'', Channel = ''C''\<rparr>"
  let ?cs = "[QueueAdd \<lparr>Text = ''queue add Fix http://x <@U1> <@U2> <@U1>'', User = ''U0'', Channel = ''C''\<rparr>]"
  have f: "Fields ''queue add 1 http://y'' = [''queue'', ''add'', ''1'', ''http://y'']"
    by (simp add: Fields_def asciiSpace_def)
  have h: "4 \<le> length (Fields (Text ?ev))" by (simp add: f)
  have r: "demoHandler = run (NewSlackHandler ''B'') ?cs"
    by (simp add: demo_reached)
  have l: "int (length ?cs) < 2 ^ 63 - 1" by simp
  from add_creates_entry [OF h, of demoHandler 7 "''B''" ?cs]
  obtain msg where m1: "handleQueueAdd demoHandler ?ev =
       (demoHandler\<lparr>Queues := (Queues demoHandler)(NextID demoHandler \<mapsto>
              \<lparr>ID = NextID demoHandler, Title = Fields (Text ?ev) ! 2, MRLink = Fields (Text ?ev) ! 3,
               Tags = drop 4 (Fields (Text ?ev)), Owner = User ?ev, InReviewState = False\<rparr>),
           NextID := NextID demoHandler + 1\<rparr>,
        [MuLock, PostMessage (Channel ?ev) msg, MuUnlock])"
    and m2: "msg = ''Queue added: *'' @ Fields (Text ?ev) ! 2 @ ''*\<newline>MR Link: ''
                   @ Fields (Text ?ev) ! 3 @ ''\<newline>Tags: '' @ Join (drop 4 (Fields (Text ?ev))) '', ''"
    and m3: "snd (handleQueueAdd (demoHandler\<lparr>NextID := 7\<rparr>) ?ev)
               = [MuLock, PostMessage (Channel ?ev) msg, MuUnlock]"
    and m4: "demoHandler = run (NewSlackHandler ''B'') ?cs \<and> int (length ?cs) < 2 ^ 63 - 1 \<longrightarrow>
               Queues demoHandler (NextID demoHandler) = None"
    by blast
  have c4: "Queues demoHandler (NextID demoHandler) = None"
    using m4 r l by blast
  have c5: "handleQueueAdd demoHandler ?ev
     = (\<lparr>Queues = [1 \<mapsto> demoQueue,
                    2 \<mapsto> \<lparr>ID = 2, Title = ''1'', MRLink = ''http://y'', Tags = [],
                           Owner = ''U5'', InReviewState = False\<rparr>],
         NextID = 3, BotUserID = ''B''\<rparr>,
        [MuLock, PostMessage ''C'' ''Queue added: *1*\<newline>MR Link: http://y\<newline>Tags: '', MuUnlock])"
    unfolding m1 m2 by (simp add: f demoHandler_def)
  have c6: "snd (handleQueueAdd (demoHandler\<lparr>NextID := 7\<rparr>) ?ev)
     = [MuLock, PostMessage ''C'' ''Queue added: *1*\<newline>MR Link: http://y\<newline>Tags: '', MuUnlock]"
    unfolding m3 m2 by (simp add: f)
  from h r l c4 c5 c6 show ?thesis by blast
qed

text \<open>
  The confirmation of the first entry of a fresh handler: the entry gets the id 1, and
  the digit does not occur in the message.
\<close>

theorem add_confirmation_without_id:
  "4 \<le> length (Fields (Text \<lparr>Text = ''queue add Fix http://x @alice @bob'', User = ''U0'', Channel = ''C''\<rparr>)) \<and>
   handleQueueAdd (NewSlackHandler ''B'')
       \<lparr>Text = ''queue add Fix http://x @alice @bob'', User = ''U0'', Channel = ''C''\<rparr>
     = (\<lparr>Queues = [1 \<mapsto> \<lparr>ID = 1, Title = ''Fix'', MRLink = ''http://x'', Tags = [''@alice'', ''@bob''],
                          Owner = ''U0'', InReviewState = False\<rparr>],
         NextID = 2, BotUserID = ''B''\<rparr>,
        [MuLock,
         PostMessage ''C'' ''Queue added: *Fix*\<newline>MR Link: http://x\<newline>Tags: @alice, @bob'',
         MuUnlock]) \<and>
   formatInt 1 = ''1'' \<and>
   \<not> sublist (formatInt 1) ''Queue added: *Fix*\<newline>MR Link: http://x\<newline>Tags: @alice, @bob''"
proof -
  have fmt: "formatInt 1 = ''1''"
    by (simp add: formatInt_def natDigits.simps digitChar_def)
  have "\<not> sublist ''1'' ''Queue added: *Fix*\<newline>MR Link: http://x\<newline>Tags: @alice, @bob''"
    by (simp add: sublist_Cons_right)
  then show ?thesis
    using fmt
    by (simp add: handleQueueAdd_def NewSlackHandler_def Fields_def asciiSpace_def Let_def)
qed

subsection \<open>Listing\<close>

lemma map_filter_keys:
  "set ks \<subseteq> dom m \<Longrightarrow> List.map_filter m ks = map (\<lambda>k. the (m k)) ks"
  by (induction ks) (auto simp: List.map_filter_simps)

lemma sublist_concat_member: "x \<in> set xs \<Longrightarrow> sublist x (concat xs)"
proof (induction xs)
  case Nil
  then show ?case by simp
next
  case (Cons y ys)
  then show ?case
    by (auto simp: sublist_append)
qed

text \<open>
  C6. \<^verbatim>\<open>queue list\<close> on an empty registry posts the fixed message that no queues are
  available, not an empty listing. On a registry with entries it posts one line for each
  entry, in the order in which the loop visits the map; the line shows the owner when
  the review flag of the entry is on and the tags, joined by commas, when it is off.
\<close>

theorem list_renders_registry:
  assumes "distinct ks" and "set ks = dom (Queues sh)"
  shows "(dom (Queues sh) = {} \<longrightarrow>
            handleQueueList sh ks ev =
              [MuLock, PostMessage (Channel ev) ''No queues available.'', MuUnlock]) \<and>
         (dom (Queues sh) \<noteq> {} \<longrightarrow>
            handleQueueList sh ks ev =
              [MuLock,
               PostMessage (Channel ev) (concat (map (\<lambda>k. queueLine (the (Queues sh k))) ks)),
               MuUnlock] \<and>
            length ks = card (dom (Queues sh)) \<and>
            (\<forall>k queue. Queues sh k = Some queue \<longrightarrow>
               sublist (queueLine queue) (concat (map (\<lambda>k. queueLine (the (Queues sh k))) ks)) \<and>
               queueLine queue =
                 ''ID: '' @ formatInt (ID queue) @ '' | Title: '' @ Title queue @ '' | MR: ''
                 @ MRLink queue @ '' | ''
                 @ (if InReviewState queue then ''Owner: <@'' @ Owner queue @ ''>''
                    else ''Tags: '' @ Join (Tags queue) '', '')
                 @ ''\<newline>''))"
proof -
  have entries: "List.map_filter (Queues sh) ks = map (\<lambda>k. the (Queues sh k)) ks"
    using assms(2) by (intro map_filter_keys) simp
  have count: "length ks = card (dom (Queues sh))"
    using assms distinct_card [of ks] by simp
  have member: "sublist (queueLine queue) (concat (map (\<lambda>k. queueLine (the (Queues sh k))) ks))"
    if "Queues sh k = Some queue" for k queue
  proof -
    have "k \<in> set ks" using that assms(2) by auto
    then have "queueLine queue \<in> set (map (\<lambda>k. queueLine (the (Queues sh k))) ks)"
      using that by force
    then show ?thesis by (rule sublist_concat_member)
  qed
  have line: "queueLine queue =
                 ''ID: '' @ formatInt (ID queue) @ '' | Title: '' @ Title queue @ '' | MR: ''
                 @ MRLink queue @ '' | ''
                 @ (if InReviewState queue then ''Owner: <@'' @ Owner queue @ ''>''
                    else ''Tags: '' @ Join (Tags queue) '', '')
                 @ ''\<newline>''" for queue
    by (simp add: queueLine_def)
  have shown: "handleQueueList sh ks ev =
              [MuLock,
               PostMessage (Channel ev) (concat (map (\<lambda>k. queueLine (the (Queues sh k))) ks)),
               MuUnlock]" if "dom (Queues sh) \<noteq> {}"
    using that entries by (simp add: handleQueueList_def comp_def)
  have none: "handleQueueList sh ks ev =
              [MuLock, PostMessage (Channel ev) ''No queues available.'', MuUnlock]"
    if "dom (Queues sh) = {}"
    using that by (simp add: handleQueueList_def)
  show ?thesis
    using none shown count member line by blast
qed

theorem list_renders_registry_witness:
  "distinct ([]::go_int list) \<and> set [] = dom (Queues (NewSlackHandler ''B'')) \<and>
   dom (Queues (NewSlackHandler ''B'')) = {} \<and>
   handleQueueList (NewSlackHandler ''B'') [] \<lparr>Text = ''queue list'', User = ''U0'', Channel = ''C''\<rparr>
     = [MuLock, PostMessage ''C'' ''No queues available.'', MuUnlock] \<and>
   distinct [2, 1::go_int] \<and>
   set [2, 1] = dom (Queues (demoHandler\<lparr>Queues := [1 \<mapsto> demoQueue, 2 \<mapsto> demoQueue\<lparr>ID := 2, InReviewState := True\<rparr>]\<rparr>)) \<and>
   dom (Queues (demoHandler\<lparr>Queues := [1 \<mapsto> demoQueue, 2 \<mapsto> demoQueue\<lparr>ID := 2, InReviewState := True\<rparr>]\<rparr>)) \<noteq> {} \<and>
   handleQueueList (demoHandler\<lparr>Queues := [1 \<mapsto> demoQueue, 2 \<mapsto> demoQueue\<lparr>ID := 2, InReviewState := True\<rparr>]\<rparr>)
       [2, 1] \<lparr>Text = ''queue list'', User = ''U0'', Channel = ''C''\<rparr>
     = [MuLock,
        PostMessage ''C''
          (''ID: 2 | Title: Fix | MR: http://x | Owner: <@U0>\<newline>''
           @ ''ID: 1 | Title: Fix | MR: http://x | Tags: <@U1>, <@U2>, <@U1>\<newline>''),
        MuUnlock]"
proof -
  let ?ev = "\<lparr>Text = ''queue list'', User = ''U0'', Channel = ''C''\<rparr>"
  let ?sh = "demoHandler\<lparr>Queues := [1 \<mapsto> demoQueue, 2 \<mapsto> demoQueue\<lparr>ID := 2, InReviewState := True\<rparr>]\<rparr>"
  have e1: "distinct ([]::go_int list)" by simp
  have e2: "set [] = dom (Queues (NewSlackHandler ''B''))" by (simp add: NewSlackHandler_def)
  have d1: "distinct [2, 1::go_int]" by simp
  have d2: "set [2, 1] = dom (Queues ?sh)" by auto
  have d3: "dom (Queues ?sh) \<noteq> {}" by simp
  have fmt: "formatInt 1 = ''1''" "formatInt 2 = ''2''"
    by (simp_all add: formatInt_def natDigits.simps digitChar_def)
  have empty: "handleQueueList (NewSlackHandler ''B'') [] ?ev
      = [MuLock, PostMessage ''C'' ''No queues available.'', MuUnlock]"
    using list_renders_registry [OF e1 e2, of ?ev] e2 by simp
  have full: "handleQueueList ?sh [2, 1] ?ev
      = [MuLock,
        PostMessage ''C''
          (''ID: 2 | Title: Fix | MR: http://x | Owner: <@U0>\<newline>''
           @ ''ID: 1 | Title: Fix | MR: http://x | Tags: <@U1>, <@U2>, <@U1>\<newline>''),
        MuUnlock]"
    using list_renders_registry [OF d1 d2, of ?ev] d3 fmt
    by (simp add: queueLine_def demoQueue_def)
  show ?thesis
    using e1 e2 d1 d2 d3 empty full by simp
qed


subsection \<open>The mutex and the replies\<close>

lemma list_lock:
  "muAfter False (handleQueueList sh ks ev) = Some False"
  "postsHoldingLock False (handleQueueList sh ks ev)"
  by (simp_all add: handleQueueList_def)

lemma muAfter_append:
  "muAfter held (es @ fs) = (case muAfter held es of None \<Rightarrow> None | Some h \<Rightarrow> muAfter h fs)"
  by (induction held es rule: muAfter.induct) auto

lemma add_lock:
  "muAfter False (snd (handleQueueAdd sh ev)) = Some False"
  "postsHoldingLock False (snd (handleQueueAdd sh ev)) \<longleftrightarrow> 4 \<le> length (Fields (Text ev))"
  by (cases "4 \<le> length (Fields (Text ev))"; simp add: add_creates add_usage del: append.simps)+

lemma remove_lock:
  "muAfter False (snd (handleQueueRemove sh ev)) = Some False"
  "postsHoldingLock False (snd (handleQueueRemove sh ev)) \<longleftrightarrow> (\<exists>qid. parseQueueID (Text ev) = Inr qid)"
  by (auto simp: handleQueueRemove_def split: sum.splits option.splits)

lemma review_lock:
  "muAfter False (snd (handleQueueReview sh ks ev)) = Some False"
  "postsHoldingLock False (snd (handleQueueReview sh ks ev)) \<longleftrightarrow>
     (\<exists>qid queue. parseQueueID (Text ev) = Inr qid \<and> Queues sh qid = Some queue)"
  by (auto simp: handleQueueReview_def Let_def list_lock split: sum.splits option.splits)

lemma update_lock:
  "muAfter False (snd (handleQueueUpdate sh ks ev)) = Some False"
  "postsHoldingLock False (snd (handleQueueUpdate sh ks ev)) \<longleftrightarrow>
     (\<exists>qid queue. parseQueueID (Text ev) = Inr qid \<and> Queues sh qid = Some queue)"
  by (auto simp: handleQueueUpdate_def Let_def list_lock split: sum.splits option.splits)

lemma approve_shape:
  assumes "effs = own @ rest"
    and "own = [PostMessage c m] \<or> own = [MuLock, MuUnlock, PostMessage c m]"
    and "rest = [] \<or> rest = lst"
  shows "\<exists>c m own. (own = [PostMessage c m] \<or> own = [MuLock, MuUnlock, PostMessage c m]) \<and>
           (effs = own \<or> effs = own @ lst)"
proof -
  have "effs = own \<or> effs = own @ lst" using assms(1,3) by auto
  then show ?thesis using assms(2) by blast
qed

lemma approve_lock:
  "\<exists>c m own. (own = [PostMessage c m] \<or> own = [MuLock, MuUnlock, PostMessage c m]) \<and>
     (snd (handleQueueApprove sh ks ev) = own \<or>
      snd (handleQueueApprove sh ks ev) = own @ handleQueueList (fst (handleQueueApprove sh ks ev)) ks ev)"
proof (cases "parseQueueID (Text ev)")
  case (Inl err)
  then have "length (Fields (Text ev)) < 3 \<or> Atoi (Fields (Text ev) ! 2) = None"
    by (auto simp: parseQueueID_def Let_def split: if_splits option.splits)
  then have "\<exists>u. handleQueueApprove sh ks ev = (sh, [PostMessage (Channel ev) u])"
    by (auto simp: handleQueueApprove_def Let_def)
  then obtain u where "handleQueueApprove sh ks ev = (sh, [PostMessage (Channel ev) u])" ..
  then show ?thesis
    by (intro approve_shape [where own = "[PostMessage (Channel ev) u]" and rest = "[]"
          and c = "Channel ev" and m = u]) simp_all
next
  case (Inr k)
  show ?thesis
  proof (cases "Queues sh k")
    case None
    then have "handleQueueApprove sh ks ev
        = (sh, [MuLock, MuUnlock, PostMessage (Channel ev) ''Queue not found.''])"
      using Inr by (simp add: handleQueueApprove_def Let_def parseQueueID_Inr)
    then show ?thesis
      by (intro approve_shape [where rest = "[]" and c = "Channel ev" and m = "''Queue not found.''"
            and own = "[MuLock, MuUnlock, PostMessage (Channel ev) ''Queue not found.'']"]) simp_all
  next
    case (Some q)
    consider "Tags q = []"
      | "Tags q \<noteq> []" "''<@'' @ User ev @ ''>'' \<notin> set (Tags q)"
      | "''<@'' @ User ev @ ''>'' \<in> set (Tags q)"
      by blast
    then show ?thesis
    proof cases
      case 1
      show ?thesis
        by (intro approve_shape [where c = "Channel ev" and m = "''Queue completed; no tags left.''"
              and own = "[MuLock, MuUnlock, PostMessage (Channel ev) ''Queue completed; no tags left.'']"
              and rest = "handleQueueList sh ks ev"])
          (simp_all add: approve_no_tags [OF Inr Some 1])
    next
      case 2
      show ?thesis
        by (intro approve_shape [where c = "Channel ev" and rest = "[]"
              and m = "''Your tag was not found in the queue.''"
              and own = "[MuLock, MuUnlock, PostMessage (Channel ev) ''Your tag was not found in the queue.'']"])
          (simp_all add: approve_untagged [OF Inr Some 2])
    next
      case 3
      show ?thesis
        by (intro approve_shape [where c = "Channel ev" and m = "''Queue approved and tag removed.''"
              and own = "[MuLock, MuUnlock, PostMessage (Channel ev) ''Queue approved and tag removed.'']"
              and rest = "handleQueueList (fst (handleQueueApprove sh ks ev)) ks ev"])
          (simp_all add: approve_tagged [OF Inr Some 3])
    qed
  qed
qed

lemma list_posts:
  "\<exists>m. heldAtPosts False (handleQueueList sh ks ev) = [(True, m)]"
  by (simp add: handleQueueList_def)

lemma add_posts:
  "heldAtPosts False (snd (handleQueueAdd sh ev)) =
     (if 4 \<le> length (Fields (Text ev))
      then [(True, ''Queue added: *'' @ Fields (Text ev) ! 2 @ ''*\<newline>MR Link: ''
                   @ Fields (Text ev) ! 3 @ ''\<newline>Tags: ''
                   @ Join (drop 4 (Fields (Text ev))) '', '')]
      else [(False, ''Usage: queue add <title> <MR link> @tag @tag'')])"
  by (cases "4 \<le> length (Fields (Text ev))"; simp add: add_creates add_usage del: append.simps)

lemma remove_posts:
  "heldAtPosts False (snd (handleQueueRemove sh ev)) =
     (case parseQueueID (Text ev) of
        Inl err \<Rightarrow> [(False, err)]
      | Inr qid \<Rightarrow>
          (case Queues sh qid of
             None \<Rightarrow> [(True, ''Queue not found.'')]
           | Some queue \<Rightarrow> [(True, ''Queue removed.'')]))"
  by (simp add: handleQueueRemove_def split: sum.splits option.splits)

lemma held_locked_post:
  "heldAtPosts held ([MuLock, PostMessage c m, MuUnlock] @ es) = (True, m) # heldAtPosts False es"
  by simp

lemma review_posts:
  "heldAtPosts False (snd (handleQueueReview sh ks ev)) =
     (case parseQueueID (Text ev) of
        Inl err \<Rightarrow> [(False, err)]
      | Inr qid \<Rightarrow>
          (case Queues sh qid of
             None \<Rightarrow> [(False, ''Queue not found.'')]
           | Some queue \<Rightarrow>
               (True, ''Queue '' @ formatInt (ID queue) @ '' is now in review.'')
               # heldAtPosts False (handleQueueList (fst (handleQueueReview sh ks ev)) ks ev)))"
  by (simp add: handleQueueReview_def Let_def held_locked_post split: sum.splits option.splits
      del: append.simps)

lemma update_posts:
  "heldAtPosts False (snd (handleQueueUpdate sh ks ev)) =
     (case parseQueueID (Text ev) of
        Inl err \<Rightarrow> [(False, err)]
      | Inr qid \<Rightarrow>
          (case Queues sh qid of
             None \<Rightarrow> [(False, ''Queue not found.'')]
           | Some queue \<Rightarrow>
               (True, ''Queue '' @ formatInt (ID queue)
                      @ '' has been updated and is no longer in review.'')
               # heldAtPosts False (handleQueueList (fst (handleQueueUpdate sh ks ev)) ks ev)))"
  by (simp add: handleQueueUpdate_def Let_def held_locked_post split: sum.splits option.splits
      del: append.simps)

lemma approve_posts:
  "\<exists>m. heldAtPosts False (snd (handleQueueApprove sh ks ev)) = [(False, m)] \<or>
        heldAtPosts False (snd (handleQueueApprove sh ks ev))
          = (False, m) # heldAtPosts False (handleQueueList (fst (handleQueueApprove sh ks ev)) ks ev)"
proof -
  obtain c m own where own: "own = [PostMessage c m] \<or> own = [MuLock, MuUnlock, PostMessage c m]"
    and eff: "snd (handleQueueApprove sh ks ev) = own \<or>
      snd (handleQueueApprove sh ks ev) = own @ handleQueueList (fst (handleQueueApprove sh ks ev)) ks ev"
    using approve_lock [of sh ks ev] by blast
  from own eff
  have "heldAtPosts False (snd (handleQueueApprove sh ks ev)) = [(False, m)] \<or>
        heldAtPosts False (snd (handleQueueApprove sh ks ev))
          = (False, m) # heldAtPosts False (handleQueueList (fst (handleQueueApprove sh ks ev)) ks ev)"
    by auto
  then show ?thesis ..
qed

text \<open>
  C9, as the handlers have it. Every handler leaves the mutex free when it returns and
  never takes it while holding it. \<^verbatim>\<open>queue list\<close> defers the unlock and so posts its
  one message, the listing or the message that there are no queues, while holding the
  mutex. \<^verbatim>\<open>queue add\<close> posts its confirmation while holding the mutex and its usage
  message without it. \<^verbatim>\<open>queue remove\<close> posts both the notice of a missing entry and
  the confirmation while holding the mutex, and a parse error without it.
  \<^verbatim>\<open>queue review\<close> and \<^verbatim>\<open>queue update\<close> post the confirmation for an entry that
  exists while holding the mutex, the notice of a missing entry after releasing it and a
  parse error without it. \<^verbatim>\<open>queue approve\<close> posts its own notice, whichever it is,
  with the mutex free. The listing that follows an approval, a review or an update is
  posted as \<^verbatim>\<open>queue list\<close> posts it, while holding the mutex.
\<close>

theorem replies_and_the_lock:
  "muAfter False (handleQueueList sh ks ev) = Some False \<and>
   (\<exists>m. heldAtPosts False (handleQueueList sh ks ev) = [(True, m)]) \<and>
   muAfter False (snd (handleQueueAdd sh ev)) = Some False \<and>
   heldAtPosts False (snd (handleQueueAdd sh ev)) =
     (if 4 \<le> length (Fields (Text ev))
      then [(True, ''Queue added: *'' @ Fields (Text ev) ! 2 @ ''*\<newline>MR Link: ''
                   @ Fields (Text ev) ! 3 @ ''\<newline>Tags: ''
                   @ Join (drop 4 (Fields (Text ev))) '', '')]
      else [(False, ''Usage: queue add <title> <MR link> @tag @tag'')]) \<and>
   muAfter False (snd (handleQueueRemove sh ev)) = Some False \<and>
   heldAtPosts False (snd (handleQueueRemove sh ev)) =
     (case parseQueueID (Text ev) of
        Inl err \<Rightarrow> [(False, err)]
      | Inr qid \<Rightarrow>
          (case Queues sh qid of
             None \<Rightarrow> [(True, ''Queue not found.'')]
           | Some queue \<Rightarrow> [(True, ''Queue removed.'')])) \<and>
   muAfter False (snd (handleQueueReview sh ks ev)) = Some False \<and>
   heldAtPosts False (snd (handleQueueReview sh ks ev)) =
     (case parseQueueID (Text ev) of
        Inl err \<Rightarrow> [(False, err)]
      | Inr qid \<Rightarrow>
          (case Queues sh qid of
             None \<Rightarrow> [(False, ''Queue not found.'')]
           | Some queue \<Rightarrow>
               (True, ''Queue '' @ formatInt (ID queue) @ '' is now in review.'')
               # heldAtPosts False (handleQueueList (fst (handleQueueReview sh ks ev)) ks ev))) \<and>
   muAfter False (snd (handleQueueUpdate sh ks ev)) = Some False \<and>
   heldAtPosts False (snd (handleQueueUpdate sh ks ev)) =
     (case parseQueueID (Text ev) of
        Inl err \<Rightarrow> [(False, err)]
      | Inr qid \<Rightarrow>
          (case Queues sh qid of
             None \<Rightarrow> [(False, ''Queue not found.'')]
           | Some queue \<Rightarrow>
               (True, ''Queue '' @ formatInt (ID queue)
                      @ '' has been updated and is no longer in review.'')
               # heldAtPosts False (handleQueueList (fst (handleQueueUpdate sh ks ev)) ks ev))) \<and>
   muAfter False (snd (handleQueueApprove sh ks ev)) = Some False \<and>
   (\<exists>m. heldAtPosts False (snd (handleQueueApprove sh ks ev)) = [(False, m)] \<or>
        heldAtPosts False (snd (handleQueueApprove sh ks ev))
          = (False, m)
            # heldAtPosts False (handleQueueList (fst (handleQueueApprove sh ks ev)) ks ev))"
proof -
  obtain c m own where own: "own = [PostMessage c m] \<or> own = [MuLock, MuUnlock, PostMessage c m]"
    and eff: "snd (handleQueueApprove sh ks ev) = own \<or>
      snd (handleQueueApprove sh ks ev) = own @ handleQueueList (fst (handleQueueApprove sh ks ev)) ks ev"
    using approve_lock [of sh ks ev] by blast
  have "muAfter False own = Some False" using own by auto
  then have a1: "muAfter False (snd (handleQueueApprove sh ks ev)) = Some False"
    using eff by (auto simp: muAfter_append list_lock)
  show ?thesis
    by (intro conjI list_lock(1) list_posts add_lock(1) add_posts remove_lock(1) remove_posts
        review_lock(1) review_posts update_lock(1) update_posts a1 approve_posts)
qed

theorem replies_and_the_lock_witness:
  "muAfter False
     (snd (handleQueueReview demoHandler [1] \<lparr>Text = ''queue review 1'', User = ''U0'', Channel = ''C''\<rparr>))
     = Some False \<and>
   heldAtPosts False
     (snd (handleQueueReview demoHandler [1] \<lparr>Text = ''queue review 1'', User = ''U0'', Channel = ''C''\<rparr>))
     = [(True, ''Queue 1 is now in review.''),
        (True, ''ID: 1 | Title: Fix | MR: http://x | Owner: <@U0>\<newline>'')] \<and>
   heldAtPosts False
     (snd (handleQueueReview demoHandler [1] \<lparr>Text = ''queue review 9'', User = ''U0'', Channel = ''C''\<rparr>))
     = [(False, ''Queue not found.'')] \<and>
   heldAtPosts False
     (snd (handleQueueApprove demoHandler [1] (approveBy ''U3'')))
     = [(False, ''Your tag was not found in the queue.'')]"
proof -
  let ?r1 = "\<lparr>Text = ''queue review 1'', User = ''U0'', Channel = ''C''\<rparr>"
  let ?r9 = "\<lparr>Text = ''queue review 9'', User = ''U0'', Channel = ''C''\<rparr>"
  have fmt: "formatInt 1 = ''1''"
    by (simp add: formatInt_def natDigits.simps digitChar_def)
  have p1: "parseQueueID ''queue review 1'' = Inr 1"
    by (simp add: parseQueueID_def Fields_def asciiSpace_def Atoi_def isDigit_def)
  have p9: "parseQueueID ''queue review 9'' = Inr 9"
    by (simp add: parseQueueID_def Fields_def asciiSpace_def Atoi_def isDigit_def)
  have st: "fst (handleQueueReview demoHandler [1] ?r1)
      = demoHandler\<lparr>Queues := [1 \<mapsto> demoQueue\<lparr>InReviewState := True\<rparr>]\<rparr>"
    using review_found [of ?r1 1 demoHandler demoQueue "[1]"] by (simp add: p1 demoHandler_def)
  have w1: "muAfter False (snd (handleQueueReview demoHandler [1] ?r1)) = Some False"
    using replies_and_the_lock [of demoHandler "[1]" ?r1] by blast
  have "heldAtPosts False (snd (handleQueueReview demoHandler [1] ?r1)) =
     (case parseQueueID (Text ?r1) of
        Inl err \<Rightarrow> [(False, err)]
      | Inr qid \<Rightarrow>
          (case Queues demoHandler qid of
             None \<Rightarrow> [(False, ''Queue not found.'')]
           | Some queue \<Rightarrow>
               (True, ''Queue '' @ formatInt (ID queue) @ '' is now in review.'')
               # heldAtPosts False (handleQueueList (fst (handleQueueReview demoHandler [1] ?r1)) [1] ?r1)))"
    using replies_and_the_lock [of demoHandler "[1]" ?r1] by blast
  then have w2: "heldAtPosts False (snd (handleQueueReview demoHandler [1] ?r1))
     = [(True, ''Queue 1 is now in review.''),
        (True, ''ID: 1 | Title: Fix | MR: http://x | Owner: <@U0>\<newline>'')]"
    unfolding st using fmt
    by (simp add: p1 demoHandler_def demoQueue_def handleQueueList_def queueLine_def
        List.map_filter_simps)
  have "heldAtPosts False (snd (handleQueueReview demoHandler [1] ?r9)) =
     (case parseQueueID (Text ?r9) of
        Inl err \<Rightarrow> [(False, err)]
      | Inr qid \<Rightarrow>
          (case Queues demoHandler qid of
             None \<Rightarrow> [(False, ''Queue not found.'')]
           | Some queue \<Rightarrow>
               (True, ''Queue '' @ formatInt (ID queue) @ '' is now in review.'')
               # heldAtPosts False (handleQueueList (fst (handleQueueReview demoHandler [1] ?r9)) [1] ?r9)))"
    using replies_and_the_lock [of demoHandler "[1]" ?r9] by blast
  then have w3: "heldAtPosts False (snd (handleQueueReview demoHandler [1] ?r9))
     = [(False, ''Queue not found.'')]"
    by (simp add: p9 demoHandler_def)
  have w4: "heldAtPosts False (snd (handleQueueApprove demoHandler [1] (approveBy ''U3'')))
     = [(False, ''Your tag was not found in the queue.'')]"
  proof -
    have q: "Queues demoHandler 1 = Some demoQueue" by (simp add: demoHandler_def)
    have t: "Tags demoQueue \<noteq> []" by (simp add: demoQueue_def)
    have u: "''<@'' @ User (approveBy ''U3'') @ ''>'' \<notin> set (Tags demoQueue)"
      by (simp add: approveBy_def demoQueue_def)
    show ?thesis
      unfolding approve_untagged [OF parse_approve_1 q t u, of "[1]"]
      by (simp add: approveBy_def)
  qed
  from w1 w2 w3 w4 show ?thesis by blast
qed

text \<open>
  The listing of a fresh handler: the message is posted between the lock and the unlock.
\<close>

theorem list_posts_holding_lock:
  "handleQueueList (NewSlackHandler ''B'') [] \<lparr>Text = ''queue list'', User = ''U0'', Channel = ''C''\<rparr>
     = [MuLock, PostMessage ''C'' ''No queues available.'', MuUnlock] \<and>
   postsHoldingLock False
     (handleQueueList (NewSlackHandler ''B'') [] \<lparr>Text = ''queue list'', User = ''U0'', Channel = ''C''\<rparr>)"
  by (simp add: handleQueueList_def NewSlackHandler_def)

end
